theory Spec2Isabelle
  imports Complex_Main "HOL-Library.Char_ord" "HOL-Library.List_Lexorder"
begin

section \<open>Failures\<close>

text \<open>
  The two ways \<^verbatim>\<open>ReplayBatchRenderer.cpp\<close> stops a call: \<^verbatim>\<open>CORRADE_INTERNAL_ASSERT\<close>
  (a fatal contract violation, no message of the caller's) and \<^verbatim>\<open>ESP_CHECK\<close> (an error
  carrying the message streamed into it). Both macros are declared outside the file; they
  are taken as stopping the call where they stand. \<open>Parse_error\<close> is the failure of
  \<^verbatim>\<open>Player::keyframeFromString\<close> on a malformed blob, and \<open>Undefined_behaviour\<close> stands
  for a read through a dangling reference or past the end of a vector, which C++ leaves
  undefined.
\<close>

datatype failure =
    Assertion_failed
  | Check_failed string
  | Parse_error
  | Undefined_behaviour

subsection \<open>Streaming an \<^verbatim>\<open>int\<close> into a message\<close>

fun string_of_nat :: "nat \<Rightarrow> string" where
  "string_of_nat n =
     (if n < 10 then [''0123456789'' ! n]
      else string_of_nat (n div 10) @ [''0123456789'' ! (n mod 10)])"

declare string_of_nat.simps [simp del]

definition string_of_int :: "int \<Rightarrow> string" where
  "string_of_int i = (if i < 0 then CHR ''-'' # string_of_nat (nat (- i)) else string_of_nat (nat i))"

section \<open>Scene nodes\<close>

text \<open>
  \<^verbatim>\<open>Mn::Vector3\<close> and \<^verbatim>\<open>Mn::Quaternion\<close> are only copied by this file, never computed
  with, so the scalar type is a parameter \<open>'f\<close>.
\<close>

datatype 'f Vector3 = Vector3 'f 'f 'f

datatype 'f Quaternion = Quaternion "'f Vector3" 'f

text \<open>
  Modelled from the spec: \<^verbatim>\<open>scene::SceneNode\<close> is declared outside the sources. The spec
  describes a scene graph as a tree of transformable nodes, and a sensor as attached to a
  node with a settable transform (translation and rotation).
\<close>

record 'f SceneNode =
  node_parent :: "nat option"
  node_translation :: "'f Vector3"
  node_rotation :: "'f Quaternion"

definition setRotation :: "'f Quaternion \<Rightarrow> 'f SceneNode \<Rightarrow> 'f SceneNode" where
  "setRotation r n = n\<lparr>node_rotation := r\<rparr>"

definition setTranslation :: "'f Vector3 \<Rightarrow> 'f SceneNode \<Rightarrow> 'f SceneNode" where
  "setTranslation t n = n\<lparr>node_translation := t\<rparr>"

text \<open>
  Nodes live on the C++ heap and are held by reference. The store of all scene nodes is a
  list indexed by the node's address; \<open>None\<close> is a node that has been deleted.
\<close>

type_synonym 'f node_store = "'f SceneNode option list"

definition createChild :: "nat \<Rightarrow> ('f::{zero,one}) node_store \<Rightarrow> nat \<times> 'f node_store" where
  "createChild p h =
     (length h,
      h @ [Some \<lparr>node_parent = Some p, node_translation = Vector3 0 0 0,
                 node_rotation = Quaternion (Vector3 0 0 0) 1\<rparr>])"

section \<open>Keyframes and the Player\<close>

type_synonym AssetInfo = string
type_synonym RenderAssetInstanceCreationInfo = string
type_synonym LightSetup = string

text \<open>
  Modelled from the spec: \<^verbatim>\<open>gfx::replay::Keyframe\<close> is declared outside the sources. The
  spec lists what the orchestrator needs of it: asset-instance creation directives, an
  optional light setup, and a mapping from a named user transform to
  (translation, rotation).
\<close>

record 'f Keyframe =
  creations :: "(AssetInfo \<times> RenderAssetInstanceCreationInfo) list"
  lights :: "LightSetup option"
  userTransforms :: "string \<rightharpoonup> ('f Vector3 \<times> 'f Quaternion)"

text \<open>
  Modelled from the spec: \<^verbatim>\<open>gfx::replay::Player\<close> is declared outside the sources. It holds
  the keyframes it currently replays and the two callbacks it was constructed with. The
  asset callback of the constructor's lambda captures \<^verbatim>\<open>envIdx\<close>; the light callback
  captures nothing but \<^verbatim>\<open>this\<close>.
\<close>

record 'f Player =
  keyframes_m :: "'f Keyframe list"
  assetCallback_envIdx :: int

definition Player_ctor :: "int \<Rightarrow> 'f Player" where
  "Player_ctor envIdx = \<lparr>keyframes_m = [], assetCallback_envIdx = envIdx\<rparr>"

definition getNumKeyframes :: "'f Player \<Rightarrow> int" where
  "getNumKeyframes p = int (length (keyframes_m p))"

text \<open>
  Modelled from the spec: \<^verbatim>\<open>Player::getUserTransform\<close> looks the name up among the user
  transforms recorded in the keyframe the Player holds; \<open>None\<close> is the C++ \<^verbatim>\<open>false\<close>,
  \<open>Some (translation, rotation)\<close> is \<^verbatim>\<open>true\<close> with both out-parameters written.
\<close>

definition getUserTransform :: "'f Player \<Rightarrow> string \<Rightarrow> ('f Vector3 \<times> 'f Quaternion) option" where
  "getUserTransform p name =
     (case keyframes_m p of [] \<Rightarrow> None | keyframe # _ \<Rightarrow> userTransforms keyframe name)"

text \<open>
  Modelled from the spec: \<^verbatim>\<open>Player::close\<close> drops what the Player holds. The asset
  instances it releases belong to the resource manager and are not tracked here.
\<close>

definition Player_close :: "'f Player \<Rightarrow> 'f Player" where
  "Player_close p = p\<lparr>keyframes_m := []\<rparr>"

section \<open>Sensor maps\<close>

text \<open>
  \<^verbatim>\<open>std::map<std::string, std::reference_wrapper<Sensor>>\<close>: an association list kept in
  strictly ascending key order, which is the order a range-for visits it in. Strings
  compare as \<^verbatim>\<open>std::string\<close> does: bytewise, a proper prefix first. The value is the
  address of the sensor's node in the node store.
\<close>

type_synonym sensor_map = "(string \<times> nat) list"

fun emplace :: "string \<Rightarrow> nat \<Rightarrow> sensor_map \<Rightarrow> sensor_map" where
  "emplace k v [] = [(k, v)]"
| "emplace k v ((k', v') # m) =
     (if k < k' then (k, v) # (k', v') # m
      else if k = k' then (k', v') # m
      else (k', v') # emplace k v m)"

record SensorSpec =
  uuid :: string

text \<open>
  Modelled from the spec: \<^verbatim>\<open>sensor::SensorFactory::createSensors\<close> is declared outside the
  sources. For each specification, in order, it creates a child node of the parent node,
  attaches a new sensor to it and enters the sensor in the map under the specification's
  name; a name already present keeps its first sensor, as \<^verbatim>\<open>std::map::emplace\<close> does.
\<close>

fun createSensors ::
  "nat \<Rightarrow> SensorSpec list \<Rightarrow> sensor_map \<Rightarrow> ('f::{zero,one}) node_store \<Rightarrow> sensor_map \<times> 'f node_store"
where
  "createSensors parentNode [] m h = (m, h)"
| "createSensors parentNode (spec # specs) m h =
     (case createChild parentNode h of
        (sensorNode, h') \<Rightarrow> createSensors parentNode specs (emplace (uuid spec) sensorNode m) h')"

text \<open>
  Modelled from the spec: \<^verbatim>\<open>sensor::SensorFactory::deleteSensor\<close> releases the sensor and
  its node. Releasing through a reference that is already dangling is undefined.
\<close>

definition deleteSensor :: "nat \<Rightarrow> 'f node_store \<Rightarrow> failure + 'f node_store" where
  "deleteSensor sensor h =
     (if sensor < length h \<and> h ! sensor \<noteq> None then Inr (h[sensor := None])
      else Inl Undefined_behaviour)"

section \<open>The scene manager and the resource manager\<close>

record SceneGraph =
  rootNode_m :: nat

record SceneManager =
  sceneGraphs_m :: "SceneGraph list"

text \<open>
  Modelled from the spec: \<^verbatim>\<open>scene::SceneManager\<close> is declared outside the sources. The spec
  describes it as a central store owning all scene graphs in a growable collection, with
  components elsewhere holding small integer ids. \<open>initSceneGraph\<close> appends a new graph
  (with a new root node) and returns its id, the position in the collection.
\<close>

definition initSceneGraph ::
  "SceneManager \<Rightarrow> ('f::{zero,one}) node_store \<Rightarrow> int \<times> SceneManager \<times> 'f node_store"
where
  "initSceneGraph sm h =
     (int (length (sceneGraphs_m sm)),
      sm\<lparr>sceneGraphs_m := sceneGraphs_m sm @ [\<lparr>rootNode_m = length h\<rparr>]\<rparr>,
      h @ [Some \<lparr>node_parent = None, node_translation = Vector3 0 0 0,
                 node_rotation = Quaternion (Vector3 0 0 0) 1\<rparr>])"

text \<open>
  Modelled from the spec: \<^verbatim>\<open>SceneManager::getSceneGraph\<close> returns a reference to the graph
  with the given id. The identity of a scene graph is its position in the store; an id
  that names no graph is undefined.
\<close>

definition SceneManager_getSceneGraph :: "SceneManager \<Rightarrow> int \<Rightarrow> failure + nat" where
  "SceneManager_getSceneGraph sm sceneID =
     (if 0 \<le> sceneID \<and> sceneID < int (length (sceneGraphs_m sm)) then Inr (nat sceneID)
      else Inl Undefined_behaviour)"

text \<open>
  Modelled from the spec: the constant \<^verbatim>\<open>ID_UNDEFINED\<close> is declared outside the sources.
  It marks an id that was never assigned; ids are positions in a collection, so it is
  negative.
\<close>

definition ID_UNDEFINED :: int where
  "ID_UNDEFINED = - 1"

text \<open>
  Modelled from the spec: \<^verbatim>\<open>assets::ResourceManager\<close> is declared outside the sources. Of
  the shared resource cache, the orchestrator uses the global light setup and the
  instantiation of an asset into the scene graphs whose ids it passes. The model records
  each instantiation request; the node handed back is the request's position.
\<close>

record ResourceManager =
  lightSetup_m :: "LightSetup option"
  renderAssetInstances_m :: "(AssetInfo \<times> RenderAssetInstanceCreationInfo \<times> int list) list"

definition setLightSetup :: "LightSetup \<Rightarrow> ResourceManager \<Rightarrow> ResourceManager" where
  "setLightSetup l rm = rm\<lparr>lightSetup_m := Some l\<rparr>"

definition ResourceManager_loadAndCreateRenderAssetInstance ::
  "AssetInfo \<Rightarrow> RenderAssetInstanceCreationInfo \<Rightarrow> int list \<Rightarrow> ResourceManager \<Rightarrow> nat \<times> ResourceManager"
where
  "ResourceManager_loadAndCreateRenderAssetInstance assetInfo creation sceneIDs rm =
     (length (renderAssetInstances_m rm),
      rm\<lparr>renderAssetInstances_m := renderAssetInstances_m rm @ [(assetInfo, creation, sceneIDs)]\<rparr>)"

section \<open>The batch renderer\<close>

record ReplayBatchRendererConfiguration =
  numEnvironments :: int
  gpuDeviceId :: int
  forceSeparateSemanticSceneGraph :: bool
  leaveContextWithBackgroundRenderer :: bool
  sensorSpecifications :: "SensorSpec list"

record 'f EnvironmentRecord =
  player_m :: "'f Player"
  sceneID_m :: int
  semanticSceneID_m :: int
  sensorParentNode_m :: nat
  sensorMap_m :: sensor_map

datatype RendererFlag = BackgroundRenderer | LeaveContextWithBackgroundRenderer

record Renderer =
  rendererContext :: "int option"
  rendererFlags :: "RendererFlag list"
  glContextAcquired :: bool

text \<open>
  The members of \<^verbatim>\<open>ReplayBatchRenderer\<close>, and the store of the scene nodes they refer to.
  An Isabelle name cannot end in an underscore, so a C++ member \<^verbatim>\<open>x_\<close> is written \<open>x_m\<close>,
  here and in the records above. \<open>resourceManager_m\<close> is a \<^verbatim>\<open>unique_ptr\<close>: \<open>None\<close> after \<^verbatim>\<open>reset()\<close>. \<open>context_m\<close> holds the
  GPU device id of the windowless context when the constructor created one.
\<close>

record 'f ReplayBatchRenderer =
  config_m :: ReplayBatchRendererConfiguration
  resourceManager_m :: "ResourceManager option"
  sceneManager_m :: SceneManager
  envs_m :: "'f EnvironmentRecord list"
  context_m :: "int option"
  renderer_m :: "Renderer option"
  nodes :: "'f node_store"

subsection \<open>\<^verbatim>\<open>setSensorTransformsFromKeyframe\<close>\<close>

definition no_keyframe_message :: "int \<Rightarrow> string" where
  \<open>no_keyframe_message envIndex =
     ''setSensorTransformsFromKeyframe: for environment '' @ string_of_int envIndex
       @ '', you have not yet called setEnvironmentKeyframe.''\<close>

definition no_user_transform_message :: "string \<Rightarrow> int \<Rightarrow> string" where
  \<open>no_user_transform_message userName envIndex =
     ''setSensorTransformsFromKeyframe: couldn't find user transform "'' @ userName
       @ ''" for environment '' @ string_of_int envIndex @ ''.''\<close>

text \<open>
  The range-for over \<^verbatim>\<open>env.sensorMap_\<close>. \<open>env\<close> is a const reference, so the Player is
  the same in every iteration; only the nodes change.
\<close>

fun sensor_loop ::
  "int \<Rightarrow> string \<Rightarrow> 'f Player \<Rightarrow> sensor_map \<Rightarrow> 'f node_store \<Rightarrow> failure option \<times> 'f node_store"
where
  "sensor_loop envIndex prefix player [] h = (None, h)"
| "sensor_loop envIndex prefix player ((sensorName, sensor) # kvs) h =
     (let userName = prefix @ sensorName in
      case getUserTransform player userName of
        None \<Rightarrow> (Some (Check_failed (no_user_transform_message userName envIndex)), h)
      | Some (translation, rotation) \<Rightarrow>
          if sensor < length h then
            (case h ! sensor of
               None \<Rightarrow> (Some Undefined_behaviour, h)
             | Some node \<Rightarrow>
                 sensor_loop envIndex prefix player kvs
                   (h[sensor := Some (setTranslation translation (setRotation rotation node))]))
          else (Some Undefined_behaviour, h))"

definition setSensorTransformsFromKeyframe ::
  "int \<Rightarrow> string \<Rightarrow> 'f ReplayBatchRenderer \<Rightarrow> failure option \<times> 'f ReplayBatchRenderer"
where
  "setSensorTransformsFromKeyframe envIndex prefix s =
     (if \<not> (envIndex \<ge> 0 \<and> envIndex < int (length (envs_m s))) then (Some Assertion_failed, s)
      else
        let env = envs_m s ! nat envIndex in
        if \<not> (getNumKeyframes (player_m env) = 1) then
          (Some (Check_failed (no_keyframe_message envIndex)), s)
        else
          case sensor_loop envIndex prefix (player_m env) (sensorMap_m env) (nodes s) of
            (r, h) \<Rightarrow> (r, s\<lparr>nodes := h\<rparr>))"

subsection \<open>Accessors\<close>

definition getEnvironmentSensorParentNode :: "int \<Rightarrow> 'f ReplayBatchRenderer \<Rightarrow> failure + nat" where
  "getEnvironmentSensorParentNode envIndex s =
     (if \<not> (envIndex \<ge> 0 \<and> envIndex < int (length (envs_m s))) then Inl Assertion_failed
      else
        let env = envs_m s ! nat envIndex in
        Inr (sensorParentNode_m env))"

definition getEnvironmentSensors :: "int \<Rightarrow> 'f ReplayBatchRenderer \<Rightarrow> failure + sensor_map" where
  "getEnvironmentSensors envIndex s =
     (if \<not> (envIndex \<ge> 0 \<and> envIndex < int (length (envs_m s))) then Inl Assertion_failed
      else
        let env = envs_m s ! nat envIndex in
        Inr (sensorMap_m env))"

definition getSceneGraph :: "int \<Rightarrow> 'f ReplayBatchRenderer \<Rightarrow> failure + nat" where
  "getSceneGraph envIndex s =
     (if \<not> (envIndex \<ge> 0 \<and> envIndex < int (length (envs_m s))) then Inl Assertion_failed
      else
        let env = envs_m s ! nat envIndex in
        SceneManager_getSceneGraph (sceneManager_m s) (sceneID_m env))"

definition getSemanticSceneGraph :: "int \<Rightarrow> 'f ReplayBatchRenderer \<Rightarrow> failure + nat" where
  "getSemanticSceneGraph envIndex s =
     (if \<not> (envIndex \<ge> 0 \<and> envIndex < int (length (envs_m s))) then Inl Assertion_failed
      else
        let env = envs_m s ! nat envIndex in
        SceneManager_getSceneGraph (sceneManager_m s)
          (if semanticSceneID_m env = ID_UNDEFINED then sceneID_m env else semanticSceneID_m env))"

subsection \<open>\<^verbatim>\<open>loadAndCreateRenderAssetInstance\<close>\<close>

text \<open>
  The call goes through the \<^verbatim>\<open>unique_ptr\<close> \<^verbatim>\<open>resourceManager_\<close>; after \<^verbatim>\<open>reset()\<close> that is
  a null dereference. The result is the node the resource manager hands back, and the
  renderer with the resource manager's new state.
\<close>

definition loadAndCreateRenderAssetInstance ::
  "int \<Rightarrow> AssetInfo \<Rightarrow> RenderAssetInstanceCreationInfo \<Rightarrow> 'f ReplayBatchRenderer
     \<Rightarrow> failure + (nat \<times> 'f ReplayBatchRenderer)"
where
  "loadAndCreateRenderAssetInstance envIndex assetInfo creation s =
     (if \<not> (envIndex \<ge> 0 \<and> envIndex < int (length (envs_m s))) then Inl Assertion_failed
      else
        let env = envs_m s ! nat envIndex;
            tempIDs = [sceneID_m env, semanticSceneID_m env]
        in case resourceManager_m s of
             None \<Rightarrow> Inl Undefined_behaviour
           | Some rm \<Rightarrow>
               (case ResourceManager_loadAndCreateRenderAssetInstance assetInfo creation tempIDs rm of
                  (node, rm') \<Rightarrow> Inr (node, s\<lparr>resourceManager_m := Some rm'\<rparr>)))"

subsection \<open>\<^verbatim>\<open>setEnvironmentKeyframe\<close>\<close>

text \<open>
  The two lambdas the constructor gives each Player. \<open>assetCallback\<close> forwards to
  \<open>loadAndCreateRenderAssetInstance\<close> with the captured \<^verbatim>\<open>envIdx\<close>; \<open>lightCallback\<close> forwards
  to the resource manager's \<^verbatim>\<open>setLightSetup\<close>.
\<close>

definition assetCallback ::
  "int \<Rightarrow> AssetInfo \<Rightarrow> RenderAssetInstanceCreationInfo \<Rightarrow> 'f ReplayBatchRenderer
     \<Rightarrow> failure + (nat \<times> 'f ReplayBatchRenderer)"
where
  "assetCallback envIdx assetInfo creation s =
     loadAndCreateRenderAssetInstance envIdx assetInfo creation s"

definition lightCallback ::
  "LightSetup \<Rightarrow> 'f ReplayBatchRenderer \<Rightarrow> failure option \<times> 'f ReplayBatchRenderer"
where
  "lightCallback l s =
     (case resourceManager_m s of
        None \<Rightarrow> (Some Undefined_behaviour, s)
      | Some rm \<Rightarrow> (None, s\<lparr>resourceManager_m := Some (setLightSetup l rm)\<rparr>))"

text \<open>
  Modelled from the spec: \<^verbatim>\<open>Player::setSingleKeyframe\<close> is declared outside the sources. It
  replaces what the Player holds with exactly the given keyframe, then applies it: the
  asset callback is invoked synchronously for every creation directive of the keyframe,
  and the light callback if the keyframe carries a light setup. The Player is a member
  of an environment record of the renderer and its callbacks act on the renderer, so the
  function works on the renderer, the Player being the one of \<open>envs_m s ! k\<close>.
\<close>

fun apply_creations ::
  "int \<Rightarrow> (AssetInfo \<times> RenderAssetInstanceCreationInfo) list \<Rightarrow> 'f ReplayBatchRenderer
     \<Rightarrow> failure option \<times> 'f ReplayBatchRenderer"
where
  "apply_creations envIdx [] s = (None, s)"
| "apply_creations envIdx ((assetInfo, creation) # cs) s =
     (case assetCallback envIdx assetInfo creation s of
        Inl f \<Rightarrow> (Some f, s)
      | Inr (node, s') \<Rightarrow> apply_creations envIdx cs s')"

definition setSingleKeyframe ::
  "nat \<Rightarrow> 'f Keyframe \<Rightarrow> 'f ReplayBatchRenderer \<Rightarrow> failure option \<times> 'f ReplayBatchRenderer"
where
  "setSingleKeyframe k keyframe s =
     (let env = envs_m s ! k;
          p = player_m env;
          s1 = s\<lparr>envs_m := (envs_m s)[k := env\<lparr>player_m := p\<lparr>keyframes_m := [keyframe]\<rparr>\<rparr>]\<rparr>
      in case apply_creations (assetCallback_envIdx p) (creations keyframe) s1 of
           (Some f, s2) \<Rightarrow> (Some f, s2)
         | (None, s2) \<Rightarrow>
             (case lights keyframe of
                None \<Rightarrow> (None, s2)
              | Some l \<Rightarrow> lightCallback l s2))"

text \<open>
  \<^verbatim>\<open>Player::keyframeFromString\<close> parses a format owned by the Player; it is a parameter of
  the model, \<open>None\<close> on a blob it cannot parse. The argument is evaluated before the call
  to \<^verbatim>\<open>setSingleKeyframe\<close>, so a parse failure leaves the renderer as it was.
\<close>

definition setEnvironmentKeyframe ::
  "(string \<Rightarrow> 'f Keyframe option) \<Rightarrow> int \<Rightarrow> string \<Rightarrow> 'f ReplayBatchRenderer
     \<Rightarrow> failure option \<times> 'f ReplayBatchRenderer"
where
  "setEnvironmentKeyframe keyframeFromString envIndex serKeyframe s =
     (if \<not> (envIndex \<ge> 0 \<and> envIndex < int (length (envs_m s))) then (Some Assertion_failed, s)
      else
        case keyframeFromString serKeyframe of
          None \<Rightarrow> (Some Parse_error, s)
        | Some keyframe \<Rightarrow> setSingleKeyframe (nat envIndex) keyframe s)"

subsection \<open>The constructor\<close>

text \<open>
  One iteration of the constructor's loop. The scene graph \<^verbatim>\<open>sceneID\<close> was created in the
  same iteration, so \<^verbatim>\<open>sceneManager_->getSceneGraph(sceneID)\<close> is read by position.
\<close>

definition ctor_iteration ::
  "int \<Rightarrow> ReplayBatchRendererConfiguration \<Rightarrow> ('f::{zero,one}) ReplayBatchRenderer \<Rightarrow> 'f ReplayBatchRenderer"
where
  "ctor_iteration envIdx cfg s =
     (case initSceneGraph (sceneManager_m s) (nodes s) of
        (sceneID, sm1, h1) \<Rightarrow>
     (case (if forceSeparateSemanticSceneGraph cfg then initSceneGraph sm1 h1 else (sceneID, sm1, h1)) of
        (semanticSceneID, sm2, h2) \<Rightarrow>
     (case createChild (rootNode_m (sceneGraphs_m sm2 ! nat sceneID)) h2 of
        (parentNode, h3) \<Rightarrow>
     (case createSensors parentNode (sensorSpecifications cfg) [] h3 of
        (sensorMap, h4) \<Rightarrow>
          s\<lparr>sceneManager_m := sm2,
            nodes := h4,
            envs_m := envs_m s @
              [\<lparr>player_m = Player_ctor envIdx,
                sceneID_m = sceneID,
                semanticSceneID_m = semanticSceneID,
                sensorParentNode_m = parentNode,
                sensorMap_m = sensorMap\<rparr>]\<rparr>))))"

function ctor_loop ::
  "int \<Rightarrow> ReplayBatchRendererConfiguration \<Rightarrow> ('f::{zero,one}) ReplayBatchRenderer \<Rightarrow> 'f ReplayBatchRenderer"
where
  "ctor_loop envIdx cfg s =
     (if envIdx < numEnvironments (config_m s) then ctor_loop (envIdx + 1) cfg (ctor_iteration envIdx cfg s)
      else s)"
  by pat_completeness auto
termination
  by (relation "measure (\<lambda>(envIdx, cfg, s). nat (numEnvironments (config_m s) - envIdx))")
    (auto simp: ctor_iteration_def split: prod.splits)

declare ctor_loop.simps [simp del]

text \<open>
  The constructor takes two facts from outside the file: whether a GL context is current
  (\<^verbatim>\<open>Magnum::GL::Context::hasCurrent()\<close>) and whether the build defines
  \<^verbatim>\<open>ESP_BUILD_WITH_BACKGROUND_RENDERER\<close>. It has no check of its own and no failing
  branch: the result is always \<open>Inr\<close>. The creation of the metadata mediator, the
  windowless context and the renderer are calls into other files, taken to succeed;
  \<^verbatim>\<open>ESP_DEBUG\<close> output is not modelled.
\<close>

definition ReplayBatchRenderer_ctor ::
  "bool \<Rightarrow> bool \<Rightarrow> ReplayBatchRendererConfiguration \<Rightarrow> failure + ('f::{zero,one}) ReplayBatchRenderer"
where
  "ReplayBatchRenderer_ctor hasCurrent backgroundRendererBuild cfg =
     (let s0 = \<lparr>config_m = cfg,
                resourceManager_m = Some \<lparr>lightSetup_m = None, renderAssetInstances_m = []\<rparr>,
                sceneManager_m = \<lparr>sceneGraphs_m = []\<rparr>,
                envs_m = [],
                context_m = None,
                renderer_m = None,
                nodes = []\<rparr>;
          s1 = ctor_loop 0 cfg s0;
          s2 = (if \<not> hasCurrent then s1\<lparr>context_m := Some (gpuDeviceId (config_m s1))\<rparr> else s1);
          flags =
            (if backgroundRendererBuild then
               (if context_m s2 \<noteq> None then [BackgroundRenderer] else []) @
               (if context_m s2 \<noteq> None \<and> leaveContextWithBackgroundRenderer (config_m s2)
                then [LeaveContextWithBackgroundRenderer] else [])
             else [])
      in Inr (s2\<lparr>renderer_m :=
                  Some \<lparr>rendererContext = context_m s2, rendererFlags = flags,
                        glContextAcquired = True\<rparr>\<rparr>))"

subsection \<open>The destructor\<close>

text \<open>
  The destructor's calls, in the order they are made: a trace kept beside the state so
  that their order can be stated.
\<close>

datatype event =
    Player_closed int
  | Sensor_deleted nat
  | ResourceManager_reset

fun delete_sensors ::
  "sensor_map \<Rightarrow> event list \<Rightarrow> 'f node_store \<Rightarrow> failure option \<times> event list \<times> 'f node_store"
where
  "delete_sensors [] tr h = (None, tr, h)"
| "delete_sensors ((sensorName, sensor) # kvs) tr h =
     (case deleteSensor sensor h of
        Inl f \<Rightarrow> (Some f, tr, h)
      | Inr h' \<Rightarrow> delete_sensors kvs (tr @ [Sensor_deleted sensor]) h')"

text \<open>
  \<^verbatim>\<open>envs_[envIdx]\<close> is an unchecked vector read; the loop's bound is
  \<^verbatim>\<open>config_.numEnvironments\<close>, not the vector's size.
\<close>

function dtor_loop ::
  "int \<Rightarrow> event list \<Rightarrow> 'f ReplayBatchRenderer \<Rightarrow> failure option \<times> event list \<times> 'f ReplayBatchRenderer"
where
  "dtor_loop envIdx tr s =
     (if envIdx < numEnvironments (config_m s) then
        (if \<not> (0 \<le> envIdx \<and> envIdx < int (length (envs_m s))) then (Some Undefined_behaviour, tr, s)
         else
           let env = envs_m s ! nat envIdx;
               s1 = s\<lparr>envs_m := (envs_m s)[nat envIdx := env\<lparr>player_m := Player_close (player_m env)\<rparr>]\<rparr>
           in case delete_sensors (sensorMap_m env) (tr @ [Player_closed envIdx]) (nodes s1) of
                (Some f, tr', h) \<Rightarrow> (Some f, tr', s1\<lparr>nodes := h\<rparr>)
              | (None, tr', h) \<Rightarrow> dtor_loop (envIdx + 1) tr' (s1\<lparr>nodes := h\<rparr>))
      else (None, tr, s))"
  by pat_completeness auto
termination
  by (relation "measure (\<lambda>(envIdx, tr, s). nat (numEnvironments (config_m s) - envIdx))") auto

declare dtor_loop.simps [simp del]

definition ReplayBatchRenderer_dtor ::
  "'f ReplayBatchRenderer \<Rightarrow> failure option \<times> event list \<times> 'f ReplayBatchRenderer"
where
  "ReplayBatchRenderer_dtor s =
     (case dtor_loop 0 [] s of
        (Some f, tr, s') \<Rightarrow> (Some f, tr, s')
      | (None, tr, s') \<Rightarrow> (None, tr @ [ResourceManager_reset], s'\<lparr>resourceManager_m := None\<rparr>))"

section \<open>Constructed renderers\<close>

text \<open>
  The renderers a caller can hold: what the constructor returns for a configuration, and
  what the two mutating operations leave behind, whether they return or stop with a
  failure.
\<close>

inductive constructed ::
  "(string \<Rightarrow> ('f::{zero,one}) Keyframe option) \<Rightarrow> ReplayBatchRendererConfiguration
     \<Rightarrow> 'f ReplayBatchRenderer \<Rightarrow> bool"
  for keyframeFromString :: "string \<Rightarrow> 'f Keyframe option"
    and cfg :: ReplayBatchRendererConfiguration
where
  constructed_ctor:
    "ReplayBatchRenderer_ctor hasCurrent backgroundRendererBuild cfg = Inr s
       \<Longrightarrow> constructed keyframeFromString cfg s"
| constructed_setEnvironmentKeyframe:
    "constructed keyframeFromString cfg s
       \<Longrightarrow> setEnvironmentKeyframe keyframeFromString envIndex serKeyframe s = (r, s')
       \<Longrightarrow> constructed keyframeFromString cfg s'"
| constructed_setSensorTransformsFromKeyframe:
    "constructed keyframeFromString cfg s
       \<Longrightarrow> setSensorTransformsFromKeyframe envIndex prefix s = (r, s')
       \<Longrightarrow> constructed keyframeFromString cfg s'"

subsection \<open>What construction establishes\<close>

definition all_sensors :: "'f EnvironmentRecord list \<Rightarrow> nat list" where
  "all_sensors envs = concat (map (\<lambda>env. map snd (sensorMap_m env)) envs)"

definition callbacks_ok :: "'f EnvironmentRecord list \<Rightarrow> bool" where
  "callbacks_ok envs \<longleftrightarrow> (\<forall>k < length envs. assetCallback_envIdx (player_m (envs ! k)) = int k)"

definition maps_sorted :: "'f EnvironmentRecord list \<Rightarrow> bool" where
  "maps_sorted envs \<longleftrightarrow> (\<forall>env \<in> set envs. sorted_wrt (<) (map fst (sensorMap_m env)))"

definition sensors_ok :: "'f EnvironmentRecord list \<Rightarrow> 'f node_store \<Rightarrow> bool" where
  "sensors_ok envs h \<longleftrightarrow>
     distinct (all_sensors envs) \<and> (\<forall>a \<in> set (all_sensors envs). a < length h) \<and> None \<notin> set h"

definition graphs_ok :: "bool \<Rightarrow> nat \<Rightarrow> 'f EnvironmentRecord list \<Rightarrow> bool" where
  "graphs_ok separate n envs \<longleftrightarrow>
     (\<forall>env \<in> set envs.
        0 \<le> sceneID_m env \<and> sceneID_m env < int n \<and>
        0 \<le> semanticSceneID_m env \<and> semanticSceneID_m env < int n \<and>
        (semanticSceneID_m env \<noteq> sceneID_m env \<longleftrightarrow> separate))"

definition renderer_inv :: "'f ReplayBatchRenderer \<Rightarrow> bool" where
  "renderer_inv s \<longleftrightarrow>
     length (envs_m s) = nat (numEnvironments (config_m s)) \<and>
     callbacks_ok (envs_m s) \<and>
     maps_sorted (envs_m s) \<and>
     sensors_ok (envs_m s) (nodes s) \<and>
     graphs_ok (forceSeparateSemanticSceneGraph (config_m s))
       (length (sceneGraphs_m (sceneManager_m s))) (envs_m s) \<and>
     resourceManager_m s \<noteq> None"

section \<open>A renderer with two environments\<close>

text \<open>
  The configuration and the renderer the constructor builds from it, used to run the
  theorems below on concrete calls. Scalars are reals here.
\<close>

definition example_cfg :: ReplayBatchRendererConfiguration where
  "example_cfg =
     \<lparr>numEnvironments = 2, gpuDeviceId = 0, forceSeparateSemanticSceneGraph = False,
      leaveContextWithBackgroundRenderer = False,
      sensorSpecifications = [\<lparr>uuid = ''rgb''\<rparr>, \<lparr>uuid = ''depth''\<rparr>]\<rparr>"

definition identity_node :: "nat option \<Rightarrow> real SceneNode" where
  "identity_node p =
     \<lparr>node_parent = p, node_translation = Vector3 0 0 0, node_rotation = Quaternion (Vector3 0 0 0) 1\<rparr>"

definition example_renderer :: "real ReplayBatchRenderer" where
  "example_renderer =
     \<lparr>config_m = example_cfg,
      resourceManager_m = Some \<lparr>lightSetup_m = None, renderAssetInstances_m = []\<rparr>,
      sceneManager_m = \<lparr>sceneGraphs_m = [\<lparr>rootNode_m = 0\<rparr>, \<lparr>rootNode_m = 4\<rparr>]\<rparr>,
      envs_m =
        [\<lparr>player_m = \<lparr>keyframes_m = [], assetCallback_envIdx = 0\<rparr>,
          sceneID_m = 0, semanticSceneID_m = 0, sensorParentNode_m = 1,
          sensorMap_m = [(''depth'', 3), (''rgb'', 2)]\<rparr>,
         \<lparr>player_m = \<lparr>keyframes_m = [], assetCallback_envIdx = 1\<rparr>,
          sceneID_m = 1, semanticSceneID_m = 1, sensorParentNode_m = 5,
          sensorMap_m = [(''depth'', 7), (''rgb'', 6)]\<rparr>],
      context_m = Some 0,
      renderer_m =
        Some \<lparr>rendererContext = Some 0, rendererFlags = [BackgroundRenderer],
              glContextAcquired = True\<rparr>,
      nodes =
        [Some (identity_node None), Some (identity_node (Some 0)), Some (identity_node (Some 1)),
         Some (identity_node (Some 1)), Some (identity_node None), Some (identity_node (Some 4)),
         Some (identity_node (Some 5)), Some (identity_node (Some 5))]\<rparr>"

definition example_keyframe :: "real Keyframe" where
  "example_keyframe =
     \<lparr>creations = [(''chair.glb'', ''chair_0'')],
      lights = Some ''default'',
      userTransforms =
        [''agent_rgb'' \<mapsto> (Vector3 1 2 3, Quaternion (Vector3 0 0 0) 1),
         ''agent_depth'' \<mapsto> (Vector3 4 5 6, Quaternion (Vector3 0 1 0) 0),
         ''head_depth'' \<mapsto> (Vector3 7 8 9, Quaternion (Vector3 1 0 0) 0)]\<rparr>"

definition example_keyframeFromString :: "string \<Rightarrow> real Keyframe option" where
  "example_keyframeFromString ser =
     (if ser = ''frame'' then Some example_keyframe
      else if ser = ''empty'' then Some \<lparr>creations = [], lights = None, userTransforms = Map.empty\<rparr>
      else None)"

definition example_cfg_separate :: ReplayBatchRendererConfiguration where
  "example_cfg_separate =
     \<lparr>numEnvironments = 1, gpuDeviceId = 0, forceSeparateSemanticSceneGraph = True,
      leaveContextWithBackgroundRenderer = False, sensorSpecifications = []\<rparr>"

definition example_separate :: "real ReplayBatchRenderer" where
  "example_separate =
     \<lparr>config_m = example_cfg_separate,
      resourceManager_m = Some \<lparr>lightSetup_m = None, renderAssetInstances_m = []\<rparr>,
      sceneManager_m = \<lparr>sceneGraphs_m = [\<lparr>rootNode_m = 0\<rparr>, \<lparr>rootNode_m = 1\<rparr>]\<rparr>,
      envs_m =
        [\<lparr>player_m = \<lparr>keyframes_m = [], assetCallback_envIdx = 0\<rparr>,
          sceneID_m = 0, semanticSceneID_m = 1, sensorParentNode_m = 2, sensorMap_m = []\<rparr>],
      context_m = None,
      renderer_m = Some \<lparr>rendererContext = None, rendererFlags = [], glContextAcquired = True\<rparr>,
      nodes = [Some (identity_node None), Some (identity_node None), Some (identity_node (Some 0))]\<rparr>"

definition example_replayed :: "real ReplayBatchRenderer" where
  "example_replayed =
     example_renderer
       \<lparr>resourceManager_m :=
          Some \<lparr>lightSetup_m = Some ''default'',
                renderAssetInstances_m = [(''chair.glb'', ''chair_0'', [0, 0])]\<rparr>,
        envs_m :=
          [\<lparr>player_m = \<lparr>keyframes_m = [example_keyframe], assetCallback_envIdx = 0\<rparr>,
            sceneID_m = 0, semanticSceneID_m = 0, sensorParentNode_m = 1,
            sensorMap_m = [(''depth'', 3), (''rgb'', 2)]\<rparr>,
           \<lparr>player_m = \<lparr>keyframes_m = [], assetCallback_envIdx = 1\<rparr>,
            sceneID_m = 1, semanticSceneID_m = 1, sensorParentNode_m = 5,
            sensorMap_m = [(''depth'', 7), (''rgb'', 6)]\<rparr>]\<rparr>"

section \<open>Sensor maps stay ordered\<close>

lemma set_emplace: "set (emplace k v m) \<subseteq> insert (k, v) (set m)"
  by (induction m) (auto split: if_splits)

lemma emplace_sorted:
  "sorted_wrt (<) (map fst m) \<Longrightarrow> sorted_wrt (<) (map fst (emplace k v m))"
proof (induction m)
  case Nil
  then show ?case by simp
next
  case (Cons p m)
  obtain k' v' where p: "p = (k', v')" by (cases p)
  from Cons.prems have tl: "sorted_wrt (<) (map fst m)" and hd: "\<forall>x \<in> set m. k' < fst x"
    by (auto simp: p)
  show ?case
  proof (cases "k < k'")
    case True
    with Cons.prems show ?thesis by (auto simp: p)
  next
    case False
    show ?thesis
    proof (cases "k = k'")
      case True
      with Cons.prems show ?thesis by (simp add: p)
    next
      case ne: False
      with False have "k' < k" by simp
      with hd have "\<forall>x \<in> set (emplace k v m). k' < fst x"
        using set_emplace [of k v m] by auto
      with Cons.IH [OF tl] False ne show ?thesis by (simp add: p)
    qed
  qed
qed

lemma emplace_distinct:
  "distinct (map snd m) \<Longrightarrow> v \<notin> snd ` set m \<Longrightarrow> distinct (map snd (emplace k v m))"
proof (induction m)
  case Nil
  then show ?case by simp
next
  case (Cons p m)
  obtain k' v' where p: "p = (k', v')" by (cases p)
  have "v' \<notin> snd ` set (emplace k v m)"
    using set_emplace [of k v m] Cons.prems by (auto simp: p)
  with Cons show ?case by (auto simp: p)
qed

lemma createSensors_props:
  "createSensors parentNode specs m h = (m', h') \<Longrightarrow>
   sorted_wrt (<) (map fst m) \<Longrightarrow> distinct (map snd m) \<Longrightarrow>
   \<forall>x \<in> set m. lo \<le> snd x \<and> snd x < length h \<Longrightarrow> lo \<le> length h \<Longrightarrow> None \<notin> set h \<Longrightarrow>
     sorted_wrt (<) (map fst m') \<and> distinct (map snd m') \<and>
     (\<forall>x \<in> set m'. lo \<le> snd x \<and> snd x < length h') \<and> None \<notin> set h' \<and>
     length h \<le> length h' \<and> take (length h) h' = h"
proof (induction specs arbitrary: m h)
  case Nil
  then show ?case by simp
next
  case (Cons spec specs)
  let ?m1 = "emplace (uuid spec) (length h) m"
  let ?h1 = "snd (createChild parentNode h)"
  have step: "createSensors parentNode specs ?m1 ?h1 = (m', h')"
    using Cons.prems(1) by (simp add: createChild_def)
  have len: "length ?h1 = Suc (length h)" by (simp add: createChild_def)
  have pre: "take (length h) ?h1 = h" by (simp add: createChild_def)
  have a: "sorted_wrt (<) (map fst ?m1)" using Cons.prems(2) by (rule emplace_sorted)
  have fresh: "length h \<notin> snd ` set m" using Cons.prems(4) by auto
  have b: "distinct (map snd ?m1)" using Cons.prems(3) fresh by (rule emplace_distinct)
  have c: "\<forall>x \<in> set ?m1. lo \<le> snd x \<and> snd x < length ?h1"
  proof
    fix x assume "x \<in> set ?m1"
    then have "x = (uuid spec, length h) \<or> x \<in> set m"
      using set_emplace [of "uuid spec" "length h" m] by auto
    then show "lo \<le> snd x \<and> snd x < length ?h1"
      using Cons.prems(4,5) len by auto
  qed
  have e: "None \<notin> set ?h1" using Cons.prems(6) by (simp add: createChild_def)
  from Cons.IH [OF step a b c _ e] len Cons.prems(5)
  have IH: "sorted_wrt (<) (map fst m')" "distinct (map snd m')"
     "\<forall>x \<in> set m'. lo \<le> snd x \<and> snd x < length h'" "None \<notin> set h'"
     "length ?h1 \<le> length h'" "take (length ?h1) h' = ?h1" by simp_all
  have "take (length h) h' = take (length h) (take (length ?h1) h')"
    using len by (simp add: min_def)
  also have "\<dots> = h" using IH(6) pre by simp
  finally have "take (length h) h' = h" .
  with IH len show ?case by simp
qed

section \<open>The constructor establishes the invariant\<close>

lemma all_sensors_append:
  "all_sensors (envs @ [env]) = all_sensors envs @ map snd (sensorMap_m env)"
  by (simp add: all_sensors_def)

lemma graphs_ok_mono: "graphs_ok b n envs \<Longrightarrow> n \<le> n' \<Longrightarrow> graphs_ok b n' envs"
  by (fastforce simp: graphs_ok_def)

lemma ctor_iteration_inv:
  assumes cb: "callbacks_ok (envs_m s)"
    and ms: "maps_sorted (envs_m s)"
    and so: "sensors_ok (envs_m s) (nodes s)"
    and go: "graphs_ok (forceSeparateSemanticSceneGraph cfg)
               (length (sceneGraphs_m (sceneManager_m s))) (envs_m s)"
    and len: "int (length (envs_m s)) = envIdx"
  shows "callbacks_ok (envs_m (ctor_iteration envIdx cfg s)) \<and>
         maps_sorted (envs_m (ctor_iteration envIdx cfg s)) \<and>
         sensors_ok (envs_m (ctor_iteration envIdx cfg s)) (nodes (ctor_iteration envIdx cfg s)) \<and>
         graphs_ok (forceSeparateSemanticSceneGraph cfg)
           (length (sceneGraphs_m (sceneManager_m (ctor_iteration envIdx cfg s))))
           (envs_m (ctor_iteration envIdx cfg s)) \<and>
         length (envs_m (ctor_iteration envIdx cfg s)) = Suc (length (envs_m s)) \<and>
         resourceManager_m (ctor_iteration envIdx cfg s) = resourceManager_m s \<and>
         config_m (ctor_iteration envIdx cfg s) = config_m s"
proof -
  let ?n = "length (sceneGraphs_m (sceneManager_m s))"
  let ?sep = "forceSeparateSemanticSceneGraph cfg"
  obtain sceneID sm1 h1 where i1: "initSceneGraph (sceneManager_m s) (nodes s) = (sceneID, sm1, h1)"
    by (cases "initSceneGraph (sceneManager_m s) (nodes s)")
  obtain semID sm2 h2 where
    i2: "(if ?sep then initSceneGraph sm1 h1 else (sceneID, sm1, h1)) = (semID, sm2, h2)"
    by (cases "if ?sep then initSceneGraph sm1 h1 else (sceneID, sm1, h1)")
  obtain parentNode h3 where
    i3: "createChild (rootNode_m (sceneGraphs_m sm2 ! nat sceneID)) h2 = (parentNode, h3)"
    by (cases "createChild (rootNode_m (sceneGraphs_m sm2 ! nat sceneID)) h2")
  obtain sensorMap h4 where
    i4: "createSensors parentNode (sensorSpecifications cfg) [] h3 = (sensorMap, h4)"
    by (cases "createSensors parentNode (sensorSpecifications cfg) [] h3")
  let ?env = "\<lparr>player_m = Player_ctor envIdx, sceneID_m = sceneID, semanticSceneID_m = semID,
                sensorParentNode_m = parentNode, sensorMap_m = sensorMap\<rparr>"
  have eq: "ctor_iteration envIdx cfg s =
      s\<lparr>sceneManager_m := sm2, nodes := h4, envs_m := envs_m s @ [?env]\<rparr>"
    by (simp add: ctor_iteration_def i1 i2 i3 i4)
  from so have old: "distinct (all_sensors (envs_m s))"
      "\<forall>a \<in> set (all_sensors (envs_m s)). a < length (nodes s)" "None \<notin> set (nodes s)"
    by (simp_all add: sensors_ok_def)
  from i1 have f1: "sceneID = int ?n" "length (sceneGraphs_m sm1) = Suc ?n"
      "length h1 = Suc (length (nodes s))" "None \<notin> set h1"
    using old(3) by (auto simp: initSceneGraph_def)
  from i2 f1 have f2: "semID = (if ?sep then int (Suc ?n) else int ?n)"
      "length (sceneGraphs_m sm2) = (if ?sep then Suc (Suc ?n) else Suc ?n)"
      "length h1 \<le> length h2" "None \<notin> set h2"
    by (auto simp: initSceneGraph_def split: if_splits)
  from i3 f2 have f3: "parentNode = length h2" "length h3 = Suc (length h2)" "None \<notin> set h3"
    by (auto simp: createChild_def)
  from createSensors_props [OF i4, of "length h3"] f3
  have f4: "sorted_wrt (<) (map fst sensorMap)" "distinct (map snd sensorMap)"
      "\<forall>x \<in> set sensorMap. length h3 \<le> snd x \<and> snd x < length h4" "None \<notin> set h4"
      "length h3 \<le> length h4"
    by simp_all
  have c1: "callbacks_ok (envs_m s @ [?env])"
    unfolding callbacks_ok_def
  proof (intro allI impI)
    fix k assume "k < length (envs_m s @ [?env])"
    then consider "k < length (envs_m s)" | "k = length (envs_m s)" by fastforce
    then show "assetCallback_envIdx (player_m ((envs_m s @ [?env]) ! k)) = int k"
    proof cases
      case 1
      with cb show ?thesis by (simp add: callbacks_ok_def nth_append)
    next
      case 2
      with len show ?thesis by (simp add: Player_ctor_def)
    qed
  qed
  have c2: "maps_sorted (envs_m s @ [?env])"
    using ms f4(1) by (simp add: maps_sorted_def)
  have lt: "\<forall>a \<in> set (all_sensors (envs_m s)). a < length h3"
    using old(2) f1(3) f2(3) f3(2) by auto
  have c3: "sensors_ok (envs_m s @ [?env]) h4"
    unfolding sensors_ok_def all_sensors_append
    using old(1) f4 lt by fastforce
  have c4: "graphs_ok ?sep (length (sceneGraphs_m sm2)) (envs_m s @ [?env])"
  proof -
    have "graphs_ok ?sep (length (sceneGraphs_m sm2)) (envs_m s)"
      using go f2(2) by (auto intro: graphs_ok_mono)
    then show ?thesis using f1(1) f2(1,2) by (auto simp: graphs_ok_def)
  qed
  show ?thesis using c1 c2 c3 c4 by (simp add: eq)
qed

lemma ctor_loop_inv:
  "callbacks_ok (envs_m s) \<Longrightarrow> maps_sorted (envs_m s) \<Longrightarrow> sensors_ok (envs_m s) (nodes s) \<Longrightarrow>
   graphs_ok (forceSeparateSemanticSceneGraph cfg)
     (length (sceneGraphs_m (sceneManager_m s))) (envs_m s) \<Longrightarrow>
   int (length (envs_m s)) = envIdx \<Longrightarrow>
     callbacks_ok (envs_m (ctor_loop envIdx cfg s)) \<and>
     maps_sorted (envs_m (ctor_loop envIdx cfg s)) \<and>
     sensors_ok (envs_m (ctor_loop envIdx cfg s)) (nodes (ctor_loop envIdx cfg s)) \<and>
     graphs_ok (forceSeparateSemanticSceneGraph cfg)
       (length (sceneGraphs_m (sceneManager_m (ctor_loop envIdx cfg s))))
       (envs_m (ctor_loop envIdx cfg s)) \<and>
     int (length (envs_m (ctor_loop envIdx cfg s))) = max envIdx (numEnvironments (config_m s)) \<and>
     resourceManager_m (ctor_loop envIdx cfg s) = resourceManager_m s \<and>
     config_m (ctor_loop envIdx cfg s) = config_m s"
proof (induction envIdx cfg s rule: ctor_loop.induct)
  case (1 envIdx cfg s)
  show ?case
  proof (cases "envIdx < numEnvironments (config_m s)")
    case True
    note it = ctor_iteration_inv [OF "1.prems"]
    have "int (length (envs_m (ctor_iteration envIdx cfg s))) = envIdx + 1"
      using it "1.prems"(5) by simp
    from "1.IH" [OF True _ _ _ _ this] it
    have "callbacks_ok (envs_m (ctor_loop (envIdx + 1) cfg (ctor_iteration envIdx cfg s))) \<and>
     maps_sorted (envs_m (ctor_loop (envIdx + 1) cfg (ctor_iteration envIdx cfg s))) \<and>
     sensors_ok (envs_m (ctor_loop (envIdx + 1) cfg (ctor_iteration envIdx cfg s)))
        (nodes (ctor_loop (envIdx + 1) cfg (ctor_iteration envIdx cfg s))) \<and>
     graphs_ok (forceSeparateSemanticSceneGraph cfg)
       (length (sceneGraphs_m (sceneManager_m (ctor_loop (envIdx + 1) cfg (ctor_iteration envIdx cfg s)))))
       (envs_m (ctor_loop (envIdx + 1) cfg (ctor_iteration envIdx cfg s))) \<and>
     int (length (envs_m (ctor_loop (envIdx + 1) cfg (ctor_iteration envIdx cfg s))))
        = max (envIdx + 1) (numEnvironments (config_m s)) \<and>
     resourceManager_m (ctor_loop (envIdx + 1) cfg (ctor_iteration envIdx cfg s)) = resourceManager_m s \<and>
     config_m (ctor_loop (envIdx + 1) cfg (ctor_iteration envIdx cfg s)) = config_m s"
      by simp
    moreover have "ctor_loop envIdx cfg s = ctor_loop (envIdx + 1) cfg (ctor_iteration envIdx cfg s)"
      using True by (subst ctor_loop.simps) simp
    ultimately show ?thesis using True by (simp add: max_def)
  next
    case False
    then have "ctor_loop envIdx cfg s = s" by (subst ctor_loop.simps) simp
    with False "1.prems" show ?thesis by (simp add: max_def)
  qed
qed

lemma ctor_establishes_inv:
  fixes s :: "('f::{zero,one}) ReplayBatchRenderer"
  assumes "ReplayBatchRenderer_ctor hasCurrent bg cfg = Inr s"
  shows "renderer_inv s \<and> config_m s = cfg"
proof -
  define s0 :: "'f ReplayBatchRenderer" where
    "s0 = \<lparr>config_m = cfg,
            resourceManager_m = Some \<lparr>lightSetup_m = None, renderAssetInstances_m = []\<rparr>,
            sceneManager_m = \<lparr>sceneGraphs_m = []\<rparr>,
            envs_m = [], context_m = None, renderer_m = None, nodes = []\<rparr>"
  have "callbacks_ok (envs_m s0)" "maps_sorted (envs_m s0)" "sensors_ok (envs_m s0) (nodes s0)"
    "graphs_ok (forceSeparateSemanticSceneGraph cfg)
       (length (sceneGraphs_m (sceneManager_m s0))) (envs_m s0)"
    "int (length (envs_m s0)) = 0"
    by (simp_all add: s0_def callbacks_ok_def maps_sorted_def sensors_ok_def graphs_ok_def
        all_sensors_def)
  note li = ctor_loop_inv [OF this]
  from li have "int (length (envs_m (ctor_loop 0 cfg s0))) = max 0 (numEnvironments (config_m s0))"
    by blast
  then have "length (envs_m (ctor_loop 0 cfg s0)) = nat (numEnvironments cfg)"
    by (simp add: s0_def max_def split: if_splits)
  moreover have "config_m s0 = cfg" "resourceManager_m s0 \<noteq> None"
    by (simp_all add: s0_def)
  ultimately have "renderer_inv (ctor_loop 0 cfg s0)"
    using li by (simp add: renderer_inv_def)
  moreover have "envs_m s = envs_m (ctor_loop 0 cfg s0) \<and> nodes s = nodes (ctor_loop 0 cfg s0) \<and>
      config_m s = config_m (ctor_loop 0 cfg s0) \<and>
      sceneManager_m s = sceneManager_m (ctor_loop 0 cfg s0) \<and>
      resourceManager_m s = resourceManager_m (ctor_loop 0 cfg s0)"
    using assms unfolding ReplayBatchRenderer_ctor_def Let_def s0_def
    by (cases hasCurrent) auto
  moreover have "config_m (ctor_loop 0 cfg s0) = cfg"
    using li by (simp add: s0_def)
  ultimately show ?thesis by (simp add: renderer_inv_def)
qed

section \<open>One pass over a sensor map\<close>

lemma sensor_loop_length: "length (snd (sensor_loop i P p kvs h)) = length h"
  by (induction kvs arbitrary: h) (auto simp: Let_def split: option.splits)

lemma sensor_loop_other:
  "a \<notin> snd ` set kvs \<Longrightarrow> snd (sensor_loop i P p kvs h) ! a = h ! a"
  by (induction kvs arbitrary: h) (auto simp: Let_def split: option.splits)

lemma update_no_None: "None \<notin> set h \<Longrightarrow> None \<notin> set (h[a := Some x])"
  by (metis insertE option.discI set_update_subset_insert subsetD)

lemma sensor_loop_no_None:
  "None \<notin> set h \<Longrightarrow> None \<notin> set (snd (sensor_loop i P p kvs h))"
proof (induction kvs arbitrary: h)
  case Nil
  then show ?case by simp
next
  case (Cons kv kvs)
  obtain n b where kv: "kv = (n, b)" by (cases kv)
  show ?case
    using Cons.prems Cons.IH [OF update_no_None [OF Cons.prems]]
    by (simp add: kv Let_def split: option.splits)
qed

text \<open>What one completed pass over a map does to the node of each of its sensors.\<close>

lemma sensor_loop_ok:
  "\<forall>x \<in> set kvs. getUserTransform p (P @ fst x) \<noteq> None \<Longrightarrow>
   distinct (map snd kvs) \<Longrightarrow> \<forall>x \<in> set kvs. snd x < length h \<Longrightarrow> None \<notin> set h \<Longrightarrow>
     fst (sensor_loop i P p kvs h) = None \<and>
     (\<forall>x \<in> set kvs. \<exists>node t r.
        h ! snd x = Some node \<and> getUserTransform p (P @ fst x) = Some (t, r) \<and>
        snd (sensor_loop i P p kvs h) ! snd x =
          Some (node\<lparr>node_rotation := r, node_translation := t\<rparr>))"
proof (induction kvs arbitrary: h)
  case Nil
  then show ?case by simp
next
  case (Cons kv kvs)
  obtain n a where kv: "kv = (n, a)" by (cases kv)
  from Cons.prems(1) obtain t r where tr: "getUserTransform p (P @ n) = Some (t, r)"
    by (auto simp: kv)
  from Cons.prems(3,4) obtain node where node: "a < length h" "h ! a = Some node"
    by (metis kv list.set_intros(1) nth_mem option.exhaust snd_conv)
  let ?h1 = "h[a := Some (setTranslation t (setRotation r node))]"
  have step: "sensor_loop i P p (kv # kvs) h = sensor_loop i P p kvs ?h1"
    by (simp add: kv tr node Let_def)
  have fresh: "a \<notin> snd ` set kvs" using Cons.prems(2) by (simp add: kv)
  have n1: "None \<notin> set ?h1"
    using Cons.prems(4) by (rule update_no_None)
  have IH: "fst (sensor_loop i P p kvs ?h1) = None \<and>
     (\<forall>x \<in> set kvs. \<exists>node t r.
        ?h1 ! snd x = Some node \<and> getUserTransform p (P @ fst x) = Some (t, r) \<and>
        snd (sensor_loop i P p kvs ?h1) ! snd x =
          Some (node\<lparr>node_rotation := r, node_translation := t\<rparr>))"
    using Cons.prems by (intro Cons.IH n1) simp_all
  have hd: "snd (sensor_loop i P p kvs ?h1) ! a = Some (node\<lparr>node_rotation := r, node_translation := t\<rparr>)"
    using fresh node by (simp add: sensor_loop_other setTranslation_def setRotation_def)
  have tl: "\<forall>x \<in> set kvs. ?h1 ! snd x = h ! snd x"
    using fresh by (metis image_eqI nth_list_update_neq)
  show ?case
    unfolding step using IH hd tl tr node by (auto simp: kv)
qed

text \<open>A pass stops at the first sensor without a recorded transform.\<close>

lemma sensor_loop_fail:
  "\<forall>x \<in> set pre. getUserTransform p (P @ fst x) \<noteq> None \<Longrightarrow>
   getUserTransform p (P @ n) = None \<Longrightarrow>
   \<forall>x \<in> set pre. snd x < length h \<Longrightarrow> None \<notin> set h \<Longrightarrow>
     sensor_loop i P p (pre @ (n, a) # post) h =
       (Some (Check_failed (no_user_transform_message (P @ n) i)), snd (sensor_loop i P p pre h))"
proof (induction pre arbitrary: h)
  case Nil
  then show ?case by (simp add: Let_def)
next
  case (Cons kv pre)
  obtain n' a' where kv: "kv = (n', a')" by (cases kv)
  from Cons.prems(1) obtain t r where tr: "getUserTransform p (P @ n') = Some (t, r)"
    by (auto simp: kv)
  from Cons.prems(3,4) obtain node where node: "a' < length h" "h ! a' = Some node"
    by (metis kv list.set_intros(1) nth_mem option.exhaust snd_conv)
  let ?h1 = "h[a' := Some (setTranslation t (setRotation r node))]"
  have n1: "None \<notin> set ?h1"
    using Cons.prems(4) by (rule update_no_None)
  have "sensor_loop i P p (pre @ (n, a) # post) ?h1 =
       (Some (Check_failed (no_user_transform_message (P @ n) i)), snd (sensor_loop i P p pre ?h1))"
    using Cons.prems by (intro Cons.IH n1) simp_all
  then show ?case by (simp add: kv tr node Let_def)
qed

section \<open>Applying a keyframe\<close>

lemma apply_creations_frame:
  "apply_creations idx cs s = (r, s') \<Longrightarrow>
     envs_m s' = envs_m s \<and> nodes s' = nodes s \<and> config_m s' = config_m s \<and>
     sceneManager_m s' = sceneManager_m s \<and>
     (resourceManager_m s \<noteq> None \<longrightarrow> resourceManager_m s' \<noteq> None)"
proof (induction cs arbitrary: s)
  case Nil
  then show ?case by simp
next
  case (Cons c cs)
  obtain assetInfo creation where c: "c = (assetInfo, creation)" by (cases c)
  show ?case
  proof (cases "assetCallback idx assetInfo creation s")
    case (Inl f)
    with Cons.prems show ?thesis by (simp add: c)
  next
    case (Inr ns)
    obtain node s1 where ns: "ns = (node, s1)" by (cases ns)
    from Inr have s1: "envs_m s1 = envs_m s \<and> nodes s1 = nodes s \<and> config_m s1 = config_m s \<and>
        sceneManager_m s1 = sceneManager_m s \<and> resourceManager_m s1 \<noteq> None"
      by (auto simp: ns assetCallback_def loadAndCreateRenderAssetInstance_def Let_def
          split: if_splits option.splits prod.splits)
    from Cons.prems Inr have "apply_creations idx cs s1 = (r, s')" by (simp add: c ns)
    from Cons.IH [OF this] s1 show ?thesis by simp
  qed
qed

lemma apply_creations_ok:
  "0 \<le> idx \<Longrightarrow> idx < int (length (envs_m s)) \<Longrightarrow> resourceManager_m s \<noteq> None \<Longrightarrow>
     fst (apply_creations idx cs s) = None"
proof (induction cs arbitrary: s)
  case Nil
  then show ?case by simp
next
  case (Cons c cs)
  obtain assetInfo creation where c: "c = (assetInfo, creation)" by (cases c)
  from Cons.prems obtain rm where rm: "resourceManager_m s = Some rm" by auto
  obtain node rm' where l: "ResourceManager_loadAndCreateRenderAssetInstance assetInfo creation
      [sceneID_m (envs_m s ! nat idx), semanticSceneID_m (envs_m s ! nat idx)] rm = (node, rm')"
    by (cases "ResourceManager_loadAndCreateRenderAssetInstance assetInfo creation
      [sceneID_m (envs_m s ! nat idx), semanticSceneID_m (envs_m s ! nat idx)] rm")
  have cb: "assetCallback idx assetInfo creation s = Inr (node, s\<lparr>resourceManager_m := Some rm'\<rparr>)"
    using Cons.prems rm l by (simp add: assetCallback_def loadAndCreateRenderAssetInstance_def)
  have "fst (apply_creations idx cs (s\<lparr>resourceManager_m := Some rm'\<rparr>)) = None"
    using Cons.prems by (intro Cons.IH) simp_all
  then show ?case by (simp add: c cb)
qed

lemma lightCallback_frame:
  "lightCallback l s = (r, s') \<Longrightarrow>
     envs_m s' = envs_m s \<and> nodes s' = nodes s \<and> config_m s' = config_m s \<and>
     sceneManager_m s' = sceneManager_m s \<and>
     (resourceManager_m s \<noteq> None \<longrightarrow> resourceManager_m s' \<noteq> None \<and> r = None)"
  by (auto simp: lightCallback_def split: option.splits)

text \<open>What \<open>setSingleKeyframe\<close> leaves of the renderer.\<close>

lemma setSingleKeyframe_frame:
  assumes "setSingleKeyframe k keyframe s = (r, s')"
  shows "envs_m s' =
      (envs_m s)[k := (envs_m s ! k)\<lparr>player_m := (player_m (envs_m s ! k))\<lparr>keyframes_m := [keyframe]\<rparr>\<rparr>] \<and>
     nodes s' = nodes s \<and> config_m s' = config_m s \<and> sceneManager_m s' = sceneManager_m s \<and>
     (resourceManager_m s \<noteq> None \<longrightarrow> resourceManager_m s' \<noteq> None)"
proof -
  let ?p = "player_m (envs_m s ! k)"
  let ?s1 = "s\<lparr>envs_m := (envs_m s)[k := (envs_m s ! k)\<lparr>player_m := ?p\<lparr>keyframes_m := [keyframe]\<rparr>\<rparr>]\<rparr>"
  obtain r2 s2 where a: "apply_creations (assetCallback_envIdx ?p) (creations keyframe) ?s1 = (r2, s2)"
    by (cases "apply_creations (assetCallback_envIdx ?p) (creations keyframe) ?s1")
  note f2 = apply_creations_frame [OF a]
  show ?thesis
  proof (cases r2)
    case (Some f)
    with assms a have "s' = s2" by (simp add: setSingleKeyframe_def Let_def)
    with f2 show ?thesis by simp
  next
    case None
    show ?thesis
    proof (cases "lights keyframe")
      case n: None
      with None assms a have "s' = s2" by (simp add: setSingleKeyframe_def Let_def)
      with f2 show ?thesis by simp
    next
      case (Some l)
      with None assms a have "lightCallback l s2 = (r, s')"
        by (simp add: setSingleKeyframe_def Let_def)
      from lightCallback_frame [OF this] f2 show ?thesis by simp
    qed
  qed
qed

lemma setSingleKeyframe_ok:
  assumes "k < length (envs_m s)" "assetCallback_envIdx (player_m (envs_m s ! k)) = int k"
    "resourceManager_m s \<noteq> None"
  shows "fst (setSingleKeyframe k keyframe s) = None"
proof -
  let ?p = "player_m (envs_m s ! k)"
  let ?s1 = "s\<lparr>envs_m := (envs_m s)[k := (envs_m s ! k)\<lparr>player_m := ?p\<lparr>keyframes_m := [keyframe]\<rparr>\<rparr>]\<rparr>"
  obtain r2 s2 where a: "apply_creations (assetCallback_envIdx ?p) (creations keyframe) ?s1 = (r2, s2)"
    by (cases "apply_creations (assetCallback_envIdx ?p) (creations keyframe) ?s1")
  have "fst (apply_creations (assetCallback_envIdx ?p) (creations keyframe) ?s1) = None"
    using assms by (intro apply_creations_ok) simp_all
  with a have r2: "r2 = None" by simp
  from apply_creations_frame [OF a] assms(3) have rm: "resourceManager_m s2 \<noteq> None" by simp
  show ?thesis
  proof (cases "lights keyframe")
    case None
    with a r2 show ?thesis by (simp add: setSingleKeyframe_def Let_def)
  next
    case (Some l)
    obtain r3 s3 where lc: "lightCallback l s2 = (r3, s3)" by (cases "lightCallback l s2")
    from lightCallback_frame [OF lc] rm have "r3 = None" by simp
    with a r2 Some lc show ?thesis by (simp add: setSingleKeyframe_def Let_def)
  qed
qed

subsection \<open>The invariant is kept\<close>

lemma all_sensors_update:
  "sensorMap_m env = sensorMap_m (envs ! k) \<Longrightarrow> all_sensors (envs[k := env]) = all_sensors envs"
proof -
  assume a: "sensorMap_m env = sensorMap_m (envs ! k)"
  have "map sensorMap_m (envs[k := env]) = map sensorMap_m envs"
    using a by (metis list_update_id map_update)
  then have "map (map snd) (map sensorMap_m (envs[k := env])) = map (map snd) (map sensorMap_m envs)"
    by simp
  then show ?thesis by (simp add: all_sensors_def comp_def)
qed

lemma inv_player_update:
  assumes inv: "callbacks_ok envs" "maps_sorted envs" "sensors_ok envs h" "graphs_ok b n envs"
    and env: "env = (envs ! k)\<lparr>player_m := (player_m (envs ! k))\<lparr>keyframes_m := kfs\<rparr>\<rparr>"
  shows "callbacks_ok (envs[k := env]) \<and> maps_sorted (envs[k := env]) \<and>
         sensors_ok (envs[k := env]) h \<and> graphs_ok b n (envs[k := env])"
proof (cases "k < length envs")
  case False
  then have "envs[k := env] = envs" by (simp add: list_update_beyond)
  with inv show ?thesis by simp
next
  case True
  have mem: "env' \<in> set (envs[k := env]) \<Longrightarrow> env' = env \<or> env' \<in> set envs" for env'
    using set_update_subset_insert [of envs k env] by auto
  have k: "envs ! k \<in> set envs" using True by simp
  have 1: "callbacks_ok (envs[k := env])"
    using inv(1) True by (auto simp: callbacks_ok_def env nth_list_update)
  have 2: "maps_sorted (envs[k := env])"
    using inv(2) k mem by (fastforce simp: maps_sorted_def env)
  have 3: "sensors_ok (envs[k := env]) h"
    using inv(3) by (simp add: sensors_ok_def all_sensors_update env)
  have 4: "graphs_ok b n (envs[k := env])"
    unfolding graphs_ok_def
  proof
    fix env' assume "env' \<in> set (envs[k := env])"
    then have "env' = env \<or> env' \<in> set envs" by (rule mem)
    then show "0 \<le> sceneID_m env' \<and> sceneID_m env' < int n \<and>
        0 \<le> semanticSceneID_m env' \<and> semanticSceneID_m env' < int n \<and>
        (semanticSceneID_m env' \<noteq> sceneID_m env' \<longleftrightarrow> b)"
      using inv(4) k by (auto simp: graphs_ok_def env)
  qed
  from 1 2 3 4 show ?thesis by simp
qed

lemma setEnvironmentKeyframe_inv:
  assumes "renderer_inv s" "setEnvironmentKeyframe kfs envIndex ser s = (r, s')"
  shows "renderer_inv s' \<and> config_m s' = config_m s"
proof (cases "envIndex \<ge> 0 \<and> envIndex < int (length (envs_m s))")
  case False
  with assms show ?thesis by (simp add: setEnvironmentKeyframe_def)
next
  case True
  show ?thesis
  proof (cases "kfs ser")
    case None
    with True assms show ?thesis by (simp add: setEnvironmentKeyframe_def)
  next
    case (Some keyframe)
    with True assms have "setSingleKeyframe (nat envIndex) keyframe s = (r, s')"
      by (simp add: setEnvironmentKeyframe_def)
    note f = setSingleKeyframe_frame [OF this]
    from assms(1) have i: "callbacks_ok (envs_m s)" "maps_sorted (envs_m s)"
      "sensors_ok (envs_m s) (nodes s)"
      "graphs_ok (forceSeparateSemanticSceneGraph (config_m s))
         (length (sceneGraphs_m (sceneManager_m s))) (envs_m s)"
      by (simp_all add: renderer_inv_def)
    from inv_player_update [OF i refl, of "nat envIndex" "[keyframe]"] f assms(1)
    show ?thesis by (simp add: renderer_inv_def)
  qed
qed

lemma setSensorTransformsFromKeyframe_frame:
  assumes "setSensorTransformsFromKeyframe envIndex prefix s = (r, s')"
  shows "envs_m s' = envs_m s \<and> config_m s' = config_m s \<and>
    sceneManager_m s' = sceneManager_m s \<and> resourceManager_m s' = resourceManager_m s \<and>
    length (nodes s') = length (nodes s) \<and> (None \<notin> set (nodes s) \<longrightarrow> None \<notin> set (nodes s'))"
proof -
  let ?env = "envs_m s ! nat envIndex"
  have "s' = s \<or> s' = s\<lparr>nodes := snd (sensor_loop envIndex prefix (player_m ?env) (sensorMap_m ?env) (nodes s))\<rparr>"
    using assms by (auto simp: setSensorTransformsFromKeyframe_def Let_def split: if_splits prod.splits)
  then show ?thesis
    by (auto simp: sensor_loop_length dest: sensor_loop_no_None)
qed

lemma setSensorTransformsFromKeyframe_inv:
  assumes "renderer_inv s" "setSensorTransformsFromKeyframe envIndex prefix s = (r, s')"
  shows "renderer_inv s' \<and> config_m s' = config_m s"
  using assms(1) setSensorTransformsFromKeyframe_frame [OF assms(2)]
  by (simp add: renderer_inv_def sensors_ok_def)

lemma constructed_inv: "constructed kfs cfg s \<Longrightarrow> renderer_inv s \<and> config_m s = cfg"
proof (induction rule: constructed.induct)
  case (constructed_ctor hasCurrent backgroundRendererBuild s)
  then show ?case by (rule ctor_establishes_inv)
next
  case (constructed_setEnvironmentKeyframe s envIndex serKeyframe r s')
  then show ?case using setEnvironmentKeyframe_inv by metis
next
  case (constructed_setSensorTransformsFromKeyframe s envIndex prefix r s')
  then show ?case using setSensorTransformsFromKeyframe_inv by metis
qed

section \<open>The sensors of one environment\<close>

lemma distinct_concat_nth: "distinct (concat xss) \<Longrightarrow> k < length xss \<Longrightarrow> distinct (xss ! k)"
  by (induction xss arbitrary: k) (auto simp: nth_Cons split: nat.splits)

lemma distinct_concat_disjoint_less:
  "distinct (concat xss) \<Longrightarrow> i < j \<Longrightarrow> j < length xss \<Longrightarrow> set (xss ! i) \<inter> set (xss ! j) = {}"
proof (induction xss arbitrary: i j)
  case Nil
  then show ?case by simp
next
  case (Cons xs xss)
  from Cons.prems obtain j' where j: "j = Suc j'" "j' < length xss" by (cases j) auto
  show ?case
  proof (cases i)
    case 0
    have "set (xss ! j') \<subseteq> set (concat xss)" using j(2) by (auto intro: nth_mem)
    with Cons.prems(1) 0 j show ?thesis by auto
  next
    case (Suc i')
    with Cons.prems j have "set (xss ! i') \<inter> set (xss ! j') = {}"
      by (intro Cons.IH) auto
    with Suc j show ?thesis by simp
  qed
qed

lemma distinct_concat_disjoint:
  assumes "distinct (concat xss)" "i < length xss" "j < length xss" "i \<noteq> j"
  shows "set (xss ! i) \<inter> set (xss ! j) = {}"
proof (cases "i < j")
  case True
  with assms show ?thesis by (intro distinct_concat_disjoint_less)
next
  case False
  with assms have "j < i" by simp
  with assms have "set (xss ! j) \<inter> set (xss ! i) = {}" by (intro distinct_concat_disjoint_less)
  then show ?thesis by blast
qed

lemma env_sensors:
  assumes "sensors_ok envs h" "k < length envs"
  shows "distinct (map snd (sensorMap_m (envs ! k)))"
    and "\<forall>x \<in> set (sensorMap_m (envs ! k)). snd x < length h"
    and "None \<notin> set h"
proof -
  let ?xss = "map (\<lambda>env. map snd (sensorMap_m env)) envs"
  from assms(1) have d: "distinct (concat ?xss)" and lt: "\<forall>a \<in> set (concat ?xss). a < length h"
    and n: "None \<notin> set h"
    by (simp_all add: sensors_ok_def all_sensors_def)
  from distinct_concat_nth [OF d, of k] assms(2)
  show "distinct (map snd (sensorMap_m (envs ! k)))" by simp
  have "envs ! k \<in> set envs" using assms(2) by simp
  with lt show "\<forall>x \<in> set (sensorMap_m (envs ! k)). snd x < length h" by auto
  show "None \<notin> set h" by (rule n)
qed

lemma getUserTransform_single:
  "keyframes_m p = [keyframe] \<Longrightarrow> getUserTransform p name = userTransforms keyframe name"
  by (simp add: getUserTransform_def)

lemma setSensorTransformsFromKeyframe_loop:
  assumes "0 \<le> envIndex" "envIndex < int (length (envs_m s))"
    and "keyframes_m (player_m (envs_m s ! nat envIndex)) = [keyframe]"
  shows "setSensorTransformsFromKeyframe envIndex prefix s =
    (fst (sensor_loop envIndex prefix (player_m (envs_m s ! nat envIndex))
            (sensorMap_m (envs_m s ! nat envIndex)) (nodes s)),
     s\<lparr>nodes := snd (sensor_loop envIndex prefix (player_m (envs_m s ! nat envIndex))
            (sensorMap_m (envs_m s ! nat envIndex)) (nodes s))\<rparr>)"
  using assms
  by (simp add: setSensorTransformsFromKeyframe_def getNumKeyframes_def Let_def split: prod.splits)

lemma setSensorTransformsFromKeyframe_cases:
  assumes "0 \<le> envIndex" "envIndex < int (length (envs_m s))"
  shows "setSensorTransformsFromKeyframe envIndex prefix s =
    (if getNumKeyframes (player_m (envs_m s ! nat envIndex)) = 1 then
       (fst (sensor_loop envIndex prefix (player_m (envs_m s ! nat envIndex))
              (sensorMap_m (envs_m s ! nat envIndex)) (nodes s)),
        s\<lparr>nodes := snd (sensor_loop envIndex prefix (player_m (envs_m s ! nat envIndex))
              (sensorMap_m (envs_m s ! nat envIndex)) (nodes s))\<rparr>)
     else (Some (Check_failed (no_keyframe_message envIndex)), s))"
  using assms
  by (simp add: setSensorTransformsFromKeyframe_def Let_def split: prod.splits)

lemma sorted_split:
  assumes "sorted_wrt (<) (map fst (pre @ (n, a) # post))"
  shows "\<forall>y \<in> set pre. fst y < n" and "\<forall>y \<in> set post. n < fst y"
  using assms by (auto simp: sorted_wrt_append)

subsection \<open>The two messages\<close>

lemma no_user_transform_message_inj:
  "(no_user_transform_message u i = no_user_transform_message u' i) = (u = u')"
  by (simp add: no_user_transform_message_def)

lemma messages_differ: "no_keyframe_message i \<noteq> no_user_transform_message u j"
  by (simp add: no_user_transform_message_def no_keyframe_message_def)

lemma sensor_loop_stops:
  assumes miss: "\<exists>x \<in> set kvs. getUserTransform p (P @ fst x) = None"
    and d: "distinct (map snd kvs)" and lt: "\<forall>x \<in> set kvs. snd x < length h" and n: "None \<notin> set h"
  shows "\<exists>pre sensorName sensor post.
    kvs = pre @ (sensorName, sensor) # post \<and>
    getUserTransform p (P @ sensorName) = None \<and>
    sensor_loop i P p kvs h =
      (Some (Check_failed (no_user_transform_message (P @ sensorName) i)), snd (sensor_loop i P p pre h)) \<and>
    (\<forall>x \<in> set pre. \<exists>node t r.
        h ! snd x = Some node \<and> getUserTransform p (P @ fst x) = Some (t, r) \<and>
        snd (sensor_loop i P p pre h) ! snd x = Some (node\<lparr>node_rotation := r, node_translation := t\<rparr>)) \<and>
    (\<forall>a. a \<notin> snd ` set pre \<longrightarrow> snd (sensor_loop i P p pre h) ! a = h ! a)"
proof -
  from split_list_first_prop [OF miss]
  obtain pre x post where sp: "kvs = pre @ x # post"
    and x: "getUserTransform p (P @ fst x) = None"
    and pre: "\<forall>y \<in> set pre. getUserTransform p (P @ fst y) \<noteq> None"
    by blast
  obtain sensorName sensor where xe: "x = (sensorName, sensor)" by (cases x)
  have dp: "distinct (map snd pre)" using d sp by simp
  have lp: "\<forall>y \<in> set pre. snd y < length h" using lt sp by simp
  have x': "getUserTransform p (P @ sensorName) = None" using x by (simp add: xe)
  have sp': "kvs = pre @ (sensorName, sensor) # post" using sp by (simp add: xe)
  have 1: "sensor_loop i P p kvs h =
      (Some (Check_failed (no_user_transform_message (P @ sensorName) i)), snd (sensor_loop i P p pre h))"
    unfolding sp' using pre x' lp n by (rule sensor_loop_fail)
  have 2: "\<forall>x \<in> set pre. \<exists>node t r.
        h ! snd x = Some node \<and> getUserTransform p (P @ fst x) = Some (t, r) \<and>
        snd (sensor_loop i P p pre h) ! snd x = Some (node\<lparr>node_rotation := r, node_translation := t\<rparr>)"
    using sensor_loop_ok [OF pre dp lp n, of i] by (rule conjunct2)
  have 3: "\<forall>a. a \<notin> snd ` set pre \<longrightarrow> snd (sensor_loop i P p pre h) ! a = h ! a"
    by (simp add: sensor_loop_other)
  show ?thesis
    by (intro exI conjI) (rule sp' x' 1 2 3)+
qed

section \<open>Scene graph ids\<close>

lemma env_graphs:
  assumes "renderer_inv s" "k < length (envs_m s)"
  shows "0 \<le> sceneID_m (envs_m s ! k)"
    and "sceneID_m (envs_m s ! k) < int (length (sceneGraphs_m (sceneManager_m s)))"
    and "0 \<le> semanticSceneID_m (envs_m s ! k)"
    and "semanticSceneID_m (envs_m s ! k) < int (length (sceneGraphs_m (sceneManager_m s)))"
    and "(semanticSceneID_m (envs_m s ! k) \<noteq> sceneID_m (envs_m s ! k))
           = forceSeparateSemanticSceneGraph (config_m s)"
proof -
  have "envs_m s ! k \<in> set (envs_m s)" using assms(2) by simp
  with assms(1) have "0 \<le> sceneID_m (envs_m s ! k) \<and>
        sceneID_m (envs_m s ! k) < int (length (sceneGraphs_m (sceneManager_m s))) \<and>
        0 \<le> semanticSceneID_m (envs_m s ! k) \<and>
        semanticSceneID_m (envs_m s ! k) < int (length (sceneGraphs_m (sceneManager_m s))) \<and>
        (semanticSceneID_m (envs_m s ! k) \<noteq> sceneID_m (envs_m s ! k)
           \<longleftrightarrow> forceSeparateSemanticSceneGraph (config_m s))"
    unfolding renderer_inv_def graphs_ok_def by blast
  then show "0 \<le> sceneID_m (envs_m s ! k)"
    and "sceneID_m (envs_m s ! k) < int (length (sceneGraphs_m (sceneManager_m s)))"
    and "0 \<le> semanticSceneID_m (envs_m s ! k)"
    and "semanticSceneID_m (envs_m s ! k) < int (length (sceneGraphs_m (sceneManager_m s)))"
    and "(semanticSceneID_m (envs_m s ! k) \<noteq> sceneID_m (envs_m s ! k))
           = forceSeparateSemanticSceneGraph (config_m s)"
    by simp_all
qed

section \<open>The loops of the destructor\<close>

lemma delete_sensors_effect:
  "distinct (map snd kvs) \<Longrightarrow> \<forall>x \<in> set kvs. snd x < length h \<and> h ! snd x \<noteq> None \<Longrightarrow>
   \<exists>h'. delete_sensors kvs tr h = (None, tr @ map (\<lambda>x. Sensor_deleted (snd x)) kvs, h') \<and>
        length h' = length h \<and> (\<forall>a. a \<notin> snd ` set kvs \<longrightarrow> h' ! a = h ! a) \<and>
        (\<forall>a \<in> snd ` set kvs. h' ! a = None)"
proof (induction kvs arbitrary: tr h)
  case Nil
  then show ?case by simp
next
  case (Cons kv kvs)
  obtain n a where kv: "kv = (n, a)" by (cases kv)
  from Cons.prems have a: "a < length h" "h ! a \<noteq> None" and fresh: "a \<notin> snd ` set kvs"
    and d: "distinct (map snd kvs)"
    by (auto simp: kv)
  let ?h1 = "h[a := None]"
  have step: "delete_sensors (kv # kvs) tr h = delete_sensors kvs (tr @ [Sensor_deleted a]) ?h1"
    using a by (simp add: kv deleteSensor_def)
  have ok: "\<forall>x \<in> set kvs. snd x < length ?h1 \<and> ?h1 ! snd x \<noteq> None"
  proof
    fix x assume x: "x \<in> set kvs"
    with fresh have "snd x \<noteq> a" by force
    with Cons.prems(2) x show "snd x < length ?h1 \<and> ?h1 ! snd x \<noteq> None" by simp
  qed
  from Cons.IH [OF d ok, of "tr @ [Sensor_deleted a]"]
  obtain h' where h': "delete_sensors kvs (tr @ [Sensor_deleted a]) ?h1 =
        (None, (tr @ [Sensor_deleted a]) @ map (\<lambda>x. Sensor_deleted (snd x)) kvs, h')"
      "length h' = length ?h1" "\<forall>b. b \<notin> snd ` set kvs \<longrightarrow> h' ! b = ?h1 ! b"
      "\<forall>b \<in> snd ` set kvs. h' ! b = None"
    by (elim exE conjE)
  have 1: "delete_sensors (kv # kvs) tr h =
      (None, tr @ map (\<lambda>x. Sensor_deleted (snd x)) (kv # kvs), h')"
    unfolding step h'(1) by (simp add: kv)
  have 2: "length h' = length h" using h'(2) by simp
  have 3: "\<forall>b. b \<notin> snd ` set (kv # kvs) \<longrightarrow> h' ! b = h ! b"
    using h'(3) by (simp add: kv)
  have "h' ! a = None" using h'(3) fresh a(1) by simp
  with h'(4) have 4: "\<forall>b \<in> snd ` set (kv # kvs). h' ! b = None"
    by (simp add: kv)
  show ?case by (intro exI conjI) (rule 1 2 3 4)+
qed

lemma all_sensors_Cons:
  "all_sensors (env # envs) = map snd (sensorMap_m env) @ all_sensors envs"
  by (simp add: all_sensors_def)

text \<open>
  The destructor's loop from environment \<open>envIdx\<close> on: its events, read off the environment
  records, and the state it leaves. The Players from \<open>envIdx\<close> on are closed, the nodes of
  their environments' sensors are deleted, and nothing else is touched.
\<close>

lemma dtor_loop_effect:
  "n = length (envs_m s) - nat envIdx \<Longrightarrow> 0 \<le> envIdx \<Longrightarrow>
   length (envs_m s) = nat (numEnvironments (config_m s)) \<Longrightarrow>
   distinct (all_sensors (drop (nat envIdx) (envs_m s))) \<Longrightarrow>
   \<forall>a \<in> set (all_sensors (drop (nat envIdx) (envs_m s))). a < length (nodes s) \<and> nodes s ! a \<noteq> None \<Longrightarrow>
   \<exists>s'. dtor_loop envIdx tr s =
     (None,
      tr @ concat (map (\<lambda>k. Player_closed (int k) #
                            map (\<lambda>x. Sensor_deleted (snd x)) (sensorMap_m (envs_m s ! k)))
                    [nat envIdx..<length (envs_m s)]),
      s') \<and>
     envs_m s' = take (nat envIdx) (envs_m s) @
        map (\<lambda>env. env\<lparr>player_m := Player_close (player_m env)\<rparr>) (drop (nat envIdx) (envs_m s)) \<and>
     length (nodes s') = length (nodes s) \<and>
     (\<forall>a \<in> set (all_sensors (drop (nat envIdx) (envs_m s))). nodes s' ! a = None) \<and>
     (\<forall>a. a \<notin> set (all_sensors (drop (nat envIdx) (envs_m s))) \<longrightarrow> nodes s' ! a = nodes s ! a) \<and>
     resourceManager_m s' = resourceManager_m s \<and> sceneManager_m s' = sceneManager_m s \<and>
     config_m s' = config_m s"
proof (induction n arbitrary: envIdx tr s)
  case 0
  then have "\<not> envIdx < numEnvironments (config_m s)" by linarith
  then have l: "dtor_loop envIdx tr s = (None, tr, s)" by (subst dtor_loop.simps) simp
  from 0 have le: "length (envs_m s) \<le> nat envIdx" by simp
  then have e: "[nat envIdx..<length (envs_m s)] = []" by simp
  from le have d: "drop (nat envIdx) (envs_m s) = []" "take (nat envIdx) (envs_m s) = envs_m s"
    by simp_all
  show ?case unfolding l e d by (simp add: all_sensors_def)
next
  case (Suc n)
  let ?k = "nat envIdx"
  let ?env = "envs_m s ! ?k"
  let ?close = "\<lambda>env :: 'a EnvironmentRecord. env\<lparr>player_m := Player_close (player_m env)\<rparr>"
  let ?envs1 = "(envs_m s)[?k := ?env\<lparr>player_m := Player_close (player_m ?env)\<rparr>]"
  let ?s1 = "s\<lparr>envs_m := ?envs1\<rparr>"
  from Suc.prems(1) have k: "?k < length (envs_m s)" by linarith
  with Suc.prems have lt: "envIdx < numEnvironments (config_m s)" by linarith
  have inr: "0 \<le> envIdx \<and> envIdx < int (length (envs_m s))" using k Suc.prems(2) by simp
  have drop: "drop ?k (envs_m s) = ?env # drop (Suc ?k) (envs_m s)"
    using k by (simp add: Cons_nth_drop_Suc)
  from Suc.prems(4) have d1: "distinct (map snd (sensorMap_m ?env))"
    and d2: "distinct (all_sensors (drop (Suc ?k) (envs_m s)))"
    and dj: "set (map snd (sensorMap_m ?env)) \<inter> set (all_sensors (drop (Suc ?k) (envs_m s))) = {}"
    unfolding drop all_sensors_Cons by simp_all
  from Suc.prems(5) have v1: "\<forall>x \<in> set (sensorMap_m ?env). snd x < length (nodes s) \<and> nodes s ! snd x \<noteq> None"
    and v2: "\<forall>a \<in> set (all_sensors (drop (Suc ?k) (envs_m s))). a < length (nodes s) \<and> nodes s ! a \<noteq> None"
    unfolding drop all_sensors_Cons by simp_all
  from delete_sensors_effect [OF d1 v1, of "tr @ [Player_closed envIdx]"]
  obtain h' where h': "delete_sensors (sensorMap_m ?env) (tr @ [Player_closed envIdx]) (nodes s) =
        (None, (tr @ [Player_closed envIdx]) @ map (\<lambda>x. Sensor_deleted (snd x)) (sensorMap_m ?env), h')"
      "length h' = length (nodes s)" "\<forall>a. a \<notin> snd ` set (sensorMap_m ?env) \<longrightarrow> h' ! a = nodes s ! a"
      "\<forall>a \<in> snd ` set (sensorMap_m ?env). h' ! a = None"
    by (elim exE conjE)
  let ?tr1 = "(tr @ [Player_closed envIdx]) @ map (\<lambda>x. Sensor_deleted (snd x)) (sensorMap_m ?env)"
  let ?s2 = "?s1\<lparr>nodes := h'\<rparr>"
  have step: "dtor_loop envIdx tr s = dtor_loop (envIdx + 1) ?tr1 ?s2"
    using lt inr h'(1) by (subst dtor_loop.simps) (simp add: Let_def)
  have k1: "nat (envIdx + 1) = Suc ?k" using Suc.prems(2) by simp
  have drop1: "drop (Suc ?k) (envs_m ?s2) = drop (Suc ?k) (envs_m s)"
    by simp
  have take1: "take (Suc ?k) (envs_m ?s2) = take ?k (envs_m s) @ [?close ?env]"
    using k by (simp add: take_Suc_conv_app_nth)
  have p1: "n = length (envs_m ?s2) - nat (envIdx + 1)" using Suc.prems(1) k1 by simp
  have p2: "0 \<le> envIdx + 1" using Suc.prems(2) by simp
  have p3: "length (envs_m ?s2) = nat (numEnvironments (config_m ?s2))" using Suc.prems(3) by simp
  have p4: "distinct (all_sensors (drop (nat (envIdx + 1)) (envs_m ?s2)))"
    unfolding k1 drop1 by (rule d2)
  have p5: "\<forall>a \<in> set (all_sensors (drop (nat (envIdx + 1)) (envs_m ?s2))).
      a < length (nodes ?s2) \<and> nodes ?s2 ! a \<noteq> None"
    unfolding k1 drop1
  proof
    fix a assume a: "a \<in> set (all_sensors (drop (Suc ?k) (envs_m s)))"
    with dj have "a \<notin> snd ` set (sensorMap_m ?env)" by auto
    with h'(3) have "h' ! a = nodes s ! a" by simp
    with v2 a h'(2) show "a < length (nodes ?s2) \<and> nodes ?s2 ! a \<noteq> None" by simp
  qed
  from Suc.IH [OF p1 p2 p3 p4 p5, of ?tr1]
  obtain s' where s': "dtor_loop (envIdx + 1) ?tr1 ?s2 =
     (None,
      ?tr1 @ concat (map (\<lambda>k. Player_closed (int k) #
                            map (\<lambda>x. Sensor_deleted (snd x)) (sensorMap_m (envs_m ?s2 ! k)))
                    [nat (envIdx + 1)..<length (envs_m ?s2)]),
      s')"
    and e': "envs_m s' = take (nat (envIdx + 1)) (envs_m ?s2) @
        map ?close (drop (nat (envIdx + 1)) (envs_m ?s2))"
    and n': "length (nodes s') = length (nodes ?s2)"
      "\<forall>a \<in> set (all_sensors (drop (nat (envIdx + 1)) (envs_m ?s2))). nodes s' ! a = None"
      "\<forall>a. a \<notin> set (all_sensors (drop (nat (envIdx + 1)) (envs_m ?s2))) \<longrightarrow> nodes s' ! a = nodes ?s2 ! a"
    and r': "resourceManager_m s' = resourceManager_m ?s2" "sceneManager_m s' = sceneManager_m ?s2"
      "config_m s' = config_m ?s2"
    by (elim exE conjE)
  have same: "map (\<lambda>k. Player_closed (int k) #
                     map (\<lambda>x. Sensor_deleted (snd x)) (sensorMap_m (?envs1 ! k)))
               [Suc ?k..<length (envs_m s)]
            = map (\<lambda>k. Player_closed (int k) #
                     map (\<lambda>x. Sensor_deleted (snd x)) (sensorMap_m (envs_m s ! k)))
               [Suc ?k..<length (envs_m s)]"
    by (rule map_cong) simp_all
  have upt: "[?k..<length (envs_m s)] = ?k # [Suc ?k..<length (envs_m s)]"
    using k by (simp add: upt_conv_Cons)
  have 1: "dtor_loop envIdx tr s =
     (None,
      tr @ concat (map (\<lambda>k. Player_closed (int k) #
                            map (\<lambda>x. Sensor_deleted (snd x)) (sensorMap_m (envs_m s ! k)))
                    [?k..<length (envs_m s)]),
      s')"
    unfolding step s' k1 upt using Suc.prems(2) by (simp add: same)
  have 2: "envs_m s' = take ?k (envs_m s) @ map ?close (drop ?k (envs_m s))"
    unfolding e' k1 take1 drop1 by (simp add: drop)
  have 3: "length (nodes s') = length (nodes s)" using n'(1) h'(2) by simp
  have 4: "\<forall>a \<in> set (all_sensors (drop ?k (envs_m s))). nodes s' ! a = None"
  proof
    fix a assume "a \<in> set (all_sensors (drop ?k (envs_m s)))"
    then consider "a \<in> snd ` set (sensorMap_m ?env)" "a \<notin> set (all_sensors (drop (Suc ?k) (envs_m s)))"
      | "a \<in> set (all_sensors (drop (Suc ?k) (envs_m s)))"
      unfolding drop all_sensors_Cons by auto
    then show "nodes s' ! a = None"
    proof cases
      case 1
      from n'(3) 1(2) have "nodes s' ! a = h' ! a" unfolding k1 drop1 by simp
      moreover from h'(4) 1(1) have "h' ! a = None" by (rule bspec)
      ultimately show ?thesis by simp
    next
      case 2
      with n'(2) show ?thesis unfolding k1 drop1 by simp
    qed
  qed
  have 5: "\<forall>a. a \<notin> set (all_sensors (drop ?k (envs_m s))) \<longrightarrow> nodes s' ! a = nodes s ! a"
  proof (intro allI impI)
    fix a assume "a \<notin> set (all_sensors (drop ?k (envs_m s)))"
    then have a1: "a \<notin> snd ` set (sensorMap_m ?env)"
      and a2: "a \<notin> set (all_sensors (drop (Suc ?k) (envs_m s)))"
      unfolding drop all_sensors_Cons by simp_all
    from n'(3) a2 have "nodes s' ! a = h' ! a" unfolding k1 drop1 by simp
    with h'(3) a1 show "nodes s' ! a = nodes s ! a" by simp
  qed
  have 6: "resourceManager_m s' = resourceManager_m s" "sceneManager_m s' = sceneManager_m s"
    "config_m s' = config_m s"
    using r' by simp_all
  show ?case by (intro exI conjI) (rule 1 2 3 4 5 6)+
qed

section \<open>The example renderer\<close>

lemma example_ctor: "ReplayBatchRenderer_ctor False True example_cfg = Inr example_renderer"
  by (simp add: ReplayBatchRenderer_ctor_def example_cfg_def example_renderer_def identity_node_def
      ctor_loop.simps ctor_iteration_def initSceneGraph_def createChild_def Player_ctor_def)

lemma example_constructed: "constructed kfs example_cfg example_renderer"
  using example_ctor by (rule constructed_ctor)

lemma example_replay:
  "setEnvironmentKeyframe example_keyframeFromString 0 ''frame'' example_renderer = (None, example_replayed)"
  by (simp add: setEnvironmentKeyframe_def example_keyframeFromString_def setSingleKeyframe_def
      example_renderer_def example_replayed_def example_keyframe_def assetCallback_def
      loadAndCreateRenderAssetInstance_def ResourceManager_loadAndCreateRenderAssetInstance_def
      lightCallback_def setLightSetup_def Let_def)

lemma example_replayed_constructed:
  "constructed example_keyframeFromString example_cfg example_replayed"
  using example_constructed example_replay by (rule constructed_setEnvironmentKeyframe)

lemma example_head_call:
  \<open>setSensorTransformsFromKeyframe 0 ''head_'' example_replayed =
     (Some (Check_failed
        ''setSensorTransformsFromKeyframe: couldn't find user transform "head_rgb" for environment 0.''),
      example_replayed
        \<lparr>nodes := (nodes example_replayed)
           [3 := Some \<lparr>node_parent = Some 1, node_translation = Vector3 7 8 9,
                       node_rotation = Quaternion (Vector3 1 0 0) 0\<rparr>]\<rparr>)\<close>
  by (simp add: setSensorTransformsFromKeyframe_def example_replayed_def example_renderer_def
      getNumKeyframes_def getUserTransform_def example_keyframe_def identity_node_def
      setTranslation_def setRotation_def no_user_transform_message_def string_of_int_def
      string_of_nat.simps Let_def)

lemma example_separate_ctor:
  "ReplayBatchRenderer_ctor True False example_cfg_separate = Inr example_separate"
  by (simp add: ReplayBatchRenderer_ctor_def example_cfg_separate_def example_separate_def
      identity_node_def ctor_loop.simps ctor_iteration_def initSceneGraph_def createChild_def
      Player_ctor_def)

lemma example_separate_constructed: "constructed kfs example_cfg_separate example_separate"
  using example_separate_ctor by (rule constructed_ctor)

section \<open>Contract checks on the environment index\<close>

text \<open>
  C6. Every operation addressed by an environment index stops with the fatal assertion
  when the index is negative or at least the number of environments; the two mutators
  leave the renderer as it was.
\<close>

theorem envIndex_out_of_range_is_fatal:
  assumes "envIndex < 0 \<or> envIndex \<ge> int (length (envs_m s))"
  shows "setEnvironmentKeyframe keyframeFromString envIndex serKeyframe s = (Some Assertion_failed, s) \<and>
         setSensorTransformsFromKeyframe envIndex prefix s = (Some Assertion_failed, s) \<and>
         getEnvironmentSensorParentNode envIndex s = Inl Assertion_failed \<and>
         getEnvironmentSensors envIndex s = Inl Assertion_failed \<and>
         getSceneGraph envIndex s = Inl Assertion_failed \<and>
         getSemanticSceneGraph envIndex s = Inl Assertion_failed \<and>
         loadAndCreateRenderAssetInstance envIndex assetInfo creation s = Inl Assertion_failed"
proof -
  from assms have out: "\<not> (envIndex \<ge> 0 \<and> envIndex < int (length (envs_m s)))" by auto
  have 1: "setEnvironmentKeyframe keyframeFromString envIndex serKeyframe s = (Some Assertion_failed, s)"
    using out by (simp add: setEnvironmentKeyframe_def)
  have 2: "setSensorTransformsFromKeyframe envIndex prefix s = (Some Assertion_failed, s)"
    using out by (simp add: setSensorTransformsFromKeyframe_def)
  have 3: "getEnvironmentSensorParentNode envIndex s = Inl Assertion_failed"
    using out by (simp add: getEnvironmentSensorParentNode_def)
  have 4: "getEnvironmentSensors envIndex s = Inl Assertion_failed"
    using out by (simp add: getEnvironmentSensors_def)
  have 5: "getSceneGraph envIndex s = Inl Assertion_failed"
    using out by (simp add: getSceneGraph_def)
  have 6: "getSemanticSceneGraph envIndex s = Inl Assertion_failed"
    using out by (simp add: getSemanticSceneGraph_def)
  have 7: "loadAndCreateRenderAssetInstance envIndex assetInfo creation s = Inl Assertion_failed"
    using out by (simp add: loadAndCreateRenderAssetInstance_def)
  from 1 2 3 4 5 6 7 show ?thesis by simp
qed

theorem envIndex_out_of_range_is_fatal_witness:
  "int (length (envs_m example_renderer)) = 2 \<and>
   setEnvironmentKeyframe (\<lambda>ser. None) 2 ''frame'' example_renderer = (Some Assertion_failed, example_renderer) \<and>
   setSensorTransformsFromKeyframe (- 1) ''agent_'' example_renderer = (Some Assertion_failed, example_renderer) \<and>
   getEnvironmentSensorParentNode 2 example_renderer = Inl Assertion_failed \<and>
   getEnvironmentSensors (- 1) example_renderer = Inl Assertion_failed \<and>
   getSceneGraph 2 example_renderer = Inl Assertion_failed \<and>
   getSemanticSceneGraph 7 example_renderer = Inl Assertion_failed \<and>
   loadAndCreateRenderAssetInstance (- 3) ''chair.glb'' ''chair_0'' example_renderer = Inl Assertion_failed"
proof -
  have n: "int (length (envs_m example_renderer)) = 2" by (simp add: example_renderer_def)
  have hi: "(2::int) < 0 \<or> 2 \<ge> int (length (envs_m example_renderer))" using n by simp
  have lo: "(- 1::int) < 0 \<or> - 1 \<ge> int (length (envs_m example_renderer))" by simp
  have hi7: "(7::int) < 0 \<or> 7 \<ge> int (length (envs_m example_renderer))" using n by simp
  have lo3: "(- 3::int) < 0 \<or> - 3 \<ge> int (length (envs_m example_renderer))" by simp
  show ?thesis
    using n envIndex_out_of_range_is_fatal [OF hi, of "\<lambda>ser. None" "''frame''"]
      envIndex_out_of_range_is_fatal [OF lo, of _ _ "''agent_''"]
      envIndex_out_of_range_is_fatal [OF hi7]
      envIndex_out_of_range_is_fatal [OF lo3, of _ _ _ "''chair.glb''" "''chair_0''"]
    by simp
qed

text \<open>
  C2. With a valid index whose Player holds no keyframe,
  \<open>setSensorTransformsFromKeyframe\<close> fails the check with a message that names the
  environment index and tells the caller that \<open>setEnvironmentKeyframe\<close> has not been
  called; the renderer, and so every sensor transform, is as before.
\<close>

theorem no_keyframe_check_fails:
  assumes "0 \<le> envIndex" "envIndex < int (length (envs_m s))"
    and "getNumKeyframes (player_m (envs_m s ! nat envIndex)) = 0"
  shows "setSensorTransformsFromKeyframe envIndex prefix s =
     (Some (Check_failed
        (''setSensorTransformsFromKeyframe: for environment '' @ string_of_int envIndex
           @ '', you have not yet called setEnvironmentKeyframe.'')), s)"
  using assms by (simp add: setSensorTransformsFromKeyframe_def no_keyframe_message_def)

theorem no_keyframe_check_fails_witness:
  "(0::int) \<le> 1 \<and> 1 < int (length (envs_m example_renderer)) \<and>
   getNumKeyframes (player_m (envs_m example_renderer ! nat 1)) = 0 \<and>
   setSensorTransformsFromKeyframe 1 ''agent_'' example_renderer =
     (Some (Check_failed
        ''setSensorTransformsFromKeyframe: for environment 1, you have not yet called setEnvironmentKeyframe.''),
      example_renderer)"
proof -
  have a: "(0::int) \<le> 1" by simp
  have b: "1 < int (length (envs_m example_renderer))" by (simp add: example_renderer_def)
  have c: "getNumKeyframes (player_m (envs_m example_renderer ! nat 1)) = 0"
    by (simp add: example_renderer_def getNumKeyframes_def)
  have d: "string_of_int 1 = ''1''" by (simp add: string_of_int_def string_of_nat.simps)
  show ?thesis
    using a b c no_keyframe_check_fails [OF a b c, of "''agent_''"] by (simp add: d)
qed

section \<open>Sensor transforms from a keyframe\<close>

text \<open>
  C1. On a constructed renderer, with a valid index whose Player holds exactly one
  keyframe that records a user transform \<open>prefix @ name\<close> for every sensor name of the
  environment, \<open>setSensorTransformsFromKeyframe\<close> returns normally, and afterwards the
  node of every sensor of the environment has exactly the translation and rotation
  recorded under \<open>prefix @ name\<close>.
\<close>

theorem sensor_transforms_round_trip:
  assumes "constructed keyframeFromString cfg s"
    and "0 \<le> envIndex" "envIndex < int (length (envs_m s))"
    and "keyframes_m (player_m (envs_m s ! nat envIndex)) = [keyframe]"
    and "\<forall>x \<in> set (sensorMap_m (envs_m s ! nat envIndex)).
           userTransforms keyframe (prefix @ fst x) \<noteq> None"
  shows "\<exists>s'. setSensorTransformsFromKeyframe envIndex prefix s = (None, s') \<and>
    (\<forall>x \<in> set (sensorMap_m (envs_m s ! nat envIndex)). \<exists>node.
       nodes s' ! snd x = Some node \<and>
       userTransforms keyframe (prefix @ fst x) = Some (node_translation node, node_rotation node))"
proof -
  let ?env = "envs_m s ! nat envIndex"
  let ?loop = "sensor_loop envIndex prefix (player_m ?env) (sensorMap_m ?env) (nodes s)"
  from constructed_inv [OF assms(1)] have so: "sensors_ok (envs_m s) (nodes s)"
    by (simp add: renderer_inv_def)
  have k: "nat envIndex < length (envs_m s)" using assms(2,3) by simp
  note es = env_sensors [OF so k]
  have found: "\<forall>x \<in> set (sensorMap_m ?env). getUserTransform (player_m ?env) (prefix @ fst x) \<noteq> None"
    using assms(5) by (simp add: getUserTransform_single [OF assms(4)])
  note ok = sensor_loop_ok [OF found es, of envIndex]
  have "\<forall>x \<in> set (sensorMap_m ?env). \<exists>node.
       snd ?loop ! snd x = Some node \<and>
       userTransforms keyframe (prefix @ fst x) = Some (node_translation node, node_rotation node)"
  proof
    fix x assume "x \<in> set (sensorMap_m ?env)"
    with ok obtain node t r where
      "getUserTransform (player_m ?env) (prefix @ fst x) = Some (t, r)"
      "snd ?loop ! snd x = Some (node\<lparr>node_rotation := r, node_translation := t\<rparr>)"
      by blast
    then show "\<exists>node. snd ?loop ! snd x = Some node \<and>
       userTransforms keyframe (prefix @ fst x) = Some (node_translation node, node_rotation node)"
      by (simp add: getUserTransform_single [OF assms(4)])
  qed
  with ok show ?thesis
    by (simp add: setSensorTransformsFromKeyframe_loop [OF assms(2,3,4)])
qed

theorem sensor_transforms_round_trip_witness:
  "constructed example_keyframeFromString example_cfg example_replayed \<and>
   keyframes_m (player_m (envs_m example_replayed ! nat 0)) = [example_keyframe] \<and>
   userTransforms example_keyframe (''agent_'' @ ''depth'')
     = Some (Vector3 4 5 6, Quaternion (Vector3 0 1 0) 0) \<and>
   userTransforms example_keyframe (''agent_'' @ ''rgb'')
     = Some (Vector3 1 2 3, Quaternion (Vector3 0 0 0) 1) \<and>
   fst (setSensorTransformsFromKeyframe 0 ''agent_'' example_replayed) = None \<and>
   nodes (snd (setSensorTransformsFromKeyframe 0 ''agent_'' example_replayed)) ! 3 =
     Some \<lparr>node_parent = Some 1, node_translation = Vector3 4 5 6,
           node_rotation = Quaternion (Vector3 0 1 0) 0\<rparr> \<and>
   nodes (snd (setSensorTransformsFromKeyframe 0 ''agent_'' example_replayed)) ! 2 =
     Some \<lparr>node_parent = Some 1, node_translation = Vector3 1 2 3,
           node_rotation = Quaternion (Vector3 0 0 0) 1\<rparr>"
proof -
  have a: "(0::int) \<le> 0" by simp
  have b: "0 < int (length (envs_m example_replayed))"
    by (simp add: example_replayed_def)
  have c: "keyframes_m (player_m (envs_m example_replayed ! nat 0)) = [example_keyframe]"
    by (simp add: example_replayed_def)
  have d: "\<forall>x \<in> set (sensorMap_m (envs_m example_replayed ! nat 0)).
      userTransforms example_keyframe (''agent_'' @ fst x) \<noteq> None"
    by (simp add: example_replayed_def example_keyframe_def)
  have e: "sensorMap_m (envs_m example_replayed ! nat 0) = [(''depth'', 3), (''rgb'', 2)]"
    by (simp add: example_replayed_def)
  have p: "node_parent (the (nodes (snd (setSensorTransformsFromKeyframe 0 ''agent_'' example_replayed)) ! 3)) = Some 1"
    "node_parent (the (nodes (snd (setSensorTransformsFromKeyframe 0 ''agent_'' example_replayed)) ! 2)) = Some 1"
    by (simp_all add: setSensorTransformsFromKeyframe_def example_replayed_def example_renderer_def
        getNumKeyframes_def getUserTransform_def example_keyframe_def identity_node_def
        setTranslation_def setRotation_def Let_def)
  from sensor_transforms_round_trip [OF example_replayed_constructed a b c d]
  obtain s' where s': "setSensorTransformsFromKeyframe 0 ''agent_'' example_replayed = (None, s')"
    and n: "\<forall>x \<in> set (sensorMap_m (envs_m example_replayed ! nat 0)). \<exists>node.
       nodes s' ! snd x = Some node \<and>
       userTransforms example_keyframe (''agent_'' @ fst x) = Some (node_translation node, node_rotation node)"
    by blast
  from n obtain n3 n2 where
    "nodes s' ! 3 = Some n3" "node_translation n3 = Vector3 4 5 6" "node_rotation n3 = Quaternion (Vector3 0 1 0) 0"
    "nodes s' ! 2 = Some n2" "node_translation n2 = Vector3 1 2 3" "node_rotation n2 = Quaternion (Vector3 0 0 0) 1"
    unfolding e by (auto simp: example_keyframe_def)
  with p s' have "nodes s' ! 3 =
     Some \<lparr>node_parent = Some 1, node_translation = Vector3 4 5 6,
           node_rotation = Quaternion (Vector3 0 1 0) 0\<rparr>"
    "nodes s' ! 2 =
     Some \<lparr>node_parent = Some 1, node_translation = Vector3 1 2 3,
           node_rotation = Quaternion (Vector3 0 0 0) 1\<rparr>"
    by (cases n3; cases n2; simp)+
  with s' c example_replayed_constructed show ?thesis
    by (simp add: example_keyframe_def)
qed

text \<open>
  C3. On a constructed renderer, with a valid index whose Player holds one keyframe that
  lacks the user transform of some sensor of the environment,
  \<open>setSensorTransformsFromKeyframe\<close> fails the check with the message that names a missing
  transform \<open>prefix @ sensorName\<close> and the environment index; the sensors the loop visited
  before that one have the transforms recorded for them in the state left behind.
\<close>

theorem missing_user_transform_check_fails:
  assumes \<open>constructed keyframeFromString cfg s\<close>
    and \<open>0 \<le> envIndex\<close> \<open>envIndex < int (length (envs_m s))\<close>
    and \<open>keyframes_m (player_m (envs_m s ! nat envIndex)) = [keyframe]\<close>
    and \<open>\<exists>x \<in> set (sensorMap_m (envs_m s ! nat envIndex)).
           userTransforms keyframe (prefix @ fst x) = None\<close>
  shows \<open>\<exists>s' pre sensorName sensor post.
    sensorMap_m (envs_m s ! nat envIndex) = pre @ (sensorName, sensor) # post \<and>
    userTransforms keyframe (prefix @ sensorName) = None \<and>
    setSensorTransformsFromKeyframe envIndex prefix s =
      (Some (Check_failed
         (''setSensorTransformsFromKeyframe: couldn't find user transform "'' @ (prefix @ sensorName)
            @ ''" for environment '' @ string_of_int envIndex @ ''.'')), s') \<and>
    (\<forall>x \<in> set pre. \<exists>node.
       nodes s' ! snd x = Some node \<and>
       userTransforms keyframe (prefix @ fst x) = Some (node_translation node, node_rotation node))\<close>
proof -
  let ?env = "envs_m s ! nat envIndex"
  from constructed_inv [OF assms(1)] have so: "sensors_ok (envs_m s) (nodes s)"
    by (simp add: renderer_inv_def)
  have k: "nat envIndex < length (envs_m s)" using assms(2,3) by simp
  note es = env_sensors [OF so k]
  note gs = getUserTransform_single [OF assms(4)]
  have miss: "\<exists>x \<in> set (sensorMap_m ?env). getUserTransform (player_m ?env) (prefix @ fst x) = None"
    using assms(5) by (simp add: gs)
  from sensor_loop_stops [OF miss es, of envIndex]
  obtain pre sensorName sensor post where
    sp: "sensorMap_m ?env = pre @ (sensorName, sensor) # post"
    and x: "getUserTransform (player_m ?env) (prefix @ sensorName) = None"
    and r: "sensor_loop envIndex prefix (player_m ?env) (sensorMap_m ?env) (nodes s) =
      (Some (Check_failed (no_user_transform_message (prefix @ sensorName) envIndex)),
       snd (sensor_loop envIndex prefix (player_m ?env) pre (nodes s)))"
    and ap: "\<forall>x \<in> set pre. \<exists>node t r.
        nodes s ! snd x = Some node \<and> getUserTransform (player_m ?env) (prefix @ fst x) = Some (t, r) \<and>
        snd (sensor_loop envIndex prefix (player_m ?env) pre (nodes s)) ! snd x =
          Some (node\<lparr>node_rotation := r, node_translation := t\<rparr>)"
    by (elim exE conjE)
  let ?s' = "s\<lparr>nodes := snd (sensor_loop envIndex prefix (player_m ?env) pre (nodes s))\<rparr>"
  have x': "userTransforms keyframe (prefix @ sensorName) = None"
    using x by (simp add: gs)
  have call: \<open>setSensorTransformsFromKeyframe envIndex prefix s =
      (Some (Check_failed
         (''setSensorTransformsFromKeyframe: couldn't find user transform "'' @ (prefix @ sensorName)
            @ ''" for environment '' @ string_of_int envIndex @ ''.'')), ?s')\<close>
    unfolding setSensorTransformsFromKeyframe_loop [OF assms(2,3,4)] r
    by (simp add: no_user_transform_message_def)
  have app: "\<forall>x \<in> set pre. \<exists>node.
       nodes ?s' ! snd x = Some node \<and>
       userTransforms keyframe (prefix @ fst x) = Some (node_translation node, node_rotation node)"
  proof
    fix y assume "y \<in> set pre"
    with ap obtain node t r where
      "getUserTransform (player_m ?env) (prefix @ fst y) = Some (t, r)"
      "snd (sensor_loop envIndex prefix (player_m ?env) pre (nodes s)) ! snd y =
          Some (node\<lparr>node_rotation := r, node_translation := t\<rparr>)"
      by blast
    then show "\<exists>node. nodes ?s' ! snd y = Some node \<and>
       userTransforms keyframe (prefix @ fst y) = Some (node_translation node, node_rotation node)"
      by (simp add: gs)
  qed
  show ?thesis
    by (intro exI conjI) (rule sp x' call app)+
qed

theorem missing_user_transform_check_fails_witness:
  \<open>constructed example_keyframeFromString example_cfg example_replayed \<and>
   keyframes_m (player_m (envs_m example_replayed ! nat 0)) = [example_keyframe] \<and>
   userTransforms example_keyframe (''head_'' @ ''rgb'') = None \<and>
   sensorMap_m (envs_m example_replayed ! nat 0) = [(''depth'', 3)] @ (''rgb'', 2) # [] \<and>
   fst (setSensorTransformsFromKeyframe 0 ''head_'' example_replayed) =
     Some (Check_failed
        ''setSensorTransformsFromKeyframe: couldn't find user transform "head_rgb" for environment 0.'') \<and>
   nodes (snd (setSensorTransformsFromKeyframe 0 ''head_'' example_replayed)) ! 3 =
     Some \<lparr>node_parent = Some 1, node_translation = Vector3 7 8 9,
           node_rotation = Quaternion (Vector3 1 0 0) 0\<rparr> \<and>
   userTransforms example_keyframe (''head_'' @ ''depth'')
     = Some (Vector3 7 8 9, Quaternion (Vector3 1 0 0) 0)\<close>
proof -
  have a: "(0::int) \<le> 0" by simp
  have b: "0 < int (length (envs_m example_replayed))"
    by (simp add: example_replayed_def)
  have c: "keyframes_m (player_m (envs_m example_replayed ! nat 0)) = [example_keyframe]"
    by (simp add: example_replayed_def)
  have m: "sensorMap_m (envs_m example_replayed ! nat 0) = [(''depth'', 3), (''rgb'', 2)]"
    by (simp add: example_replayed_def)
  have u: "userTransforms example_keyframe (''head_'' @ ''rgb'') = None"
    "userTransforms example_keyframe (''head_'' @ ''depth'') = Some (Vector3 7 8 9, Quaternion (Vector3 1 0 0) 0)"
    by (simp_all add: example_keyframe_def)
  have d: "\<exists>x \<in> set (sensorMap_m (envs_m example_replayed ! nat 0)).
      userTransforms example_keyframe (''head_'' @ fst x) = None"
    unfolding m using u(1) by simp
  have n: "nodes (snd (setSensorTransformsFromKeyframe 0 ''head_'' example_replayed)) ! 3 =
     Some \<lparr>node_parent = Some 1, node_translation = Vector3 7 8 9,
           node_rotation = Quaternion (Vector3 1 0 0) 0\<rparr>"
    unfolding example_head_call by (simp add: example_replayed_def example_renderer_def)
  from missing_user_transform_check_fails [OF example_replayed_constructed a b c d]
  obtain s' f where "setSensorTransformsFromKeyframe 0 ''head_'' example_replayed = (Some (Check_failed f), s')"
    by (elim exE conjE)
  then have \<open>fst (setSensorTransformsFromKeyframe 0 ''head_'' example_replayed) =
     Some (Check_failed
        ''setSensorTransformsFromKeyframe: couldn't find user transform "head_rgb" for environment 0.'')\<close>
    by (simp add: example_head_call)
  with example_replayed_constructed c u m n show ?thesis by simp
qed

text \<open>
  C10. The sensor map of an environment is in ascending order of the sensor names, and
  the loop visits it in that order: when \<open>setSensorTransformsFromKeyframe\<close> fails with the
  message for \<open>prefix @ sensorName\<close>, that sensor is one of the environment's and has no
  recorded transform, every sensor with a smaller name has the transform recorded for it,
  and the node of every other sensor of the environment is as it was.
\<close>

theorem sensors_before_the_missing_one_moved:
  assumes \<open>constructed keyframeFromString cfg s\<close>
    and \<open>0 \<le> envIndex\<close> \<open>envIndex < int (length (envs_m s))\<close>
    and \<open>setSensorTransformsFromKeyframe envIndex prefix s =
      (Some (Check_failed
         (''setSensorTransformsFromKeyframe: couldn't find user transform "'' @ (prefix @ sensorName)
            @ ''" for environment '' @ string_of_int envIndex @ ''.'')), s')\<close>
  shows \<open>sorted_wrt (<) (map fst (sensorMap_m (envs_m s ! nat envIndex))) \<and>
    sensorName \<in> fst ` set (sensorMap_m (envs_m s ! nat envIndex)) \<and>
    getUserTransform (player_m (envs_m s ! nat envIndex)) (prefix @ sensorName) = None \<and>
    (\<forall>x \<in> set (sensorMap_m (envs_m s ! nat envIndex)).
       (fst x < sensorName \<longrightarrow>
          (\<exists>node. nodes s' ! snd x = Some node \<and>
             getUserTransform (player_m (envs_m s ! nat envIndex)) (prefix @ fst x)
               = Some (node_translation node, node_rotation node))) \<and>
       (\<not> fst x < sensorName \<longrightarrow> nodes s' ! snd x = nodes s ! snd x))\<close>
proof -
  let ?env = "envs_m s ! nat envIndex"
  let ?p = "player_m ?env"
  let ?m = "sensorMap_m ?env"
  let ?loop = "sensor_loop envIndex prefix ?p ?m (nodes s)"
  note inv = constructed_inv [OF assms(1)]
  from inv have so: "sensors_ok (envs_m s) (nodes s)" and ms: "maps_sorted (envs_m s)"
    by (simp_all add: renderer_inv_def)
  have k: "nat envIndex < length (envs_m s)" using assms(2,3) by simp
  note es = env_sensors [OF so k]
  have srt: "sorted_wrt (<) (map fst ?m)"
    using ms k by (simp add: maps_sorted_def)
  have call: "setSensorTransformsFromKeyframe envIndex prefix s =
      (Some (Check_failed (no_user_transform_message (prefix @ sensorName) envIndex)), s')"
    using assms(4) by (simp add: no_user_transform_message_def)
  have one: "getNumKeyframes ?p = 1"
  proof (rule ccontr)
    assume "getNumKeyframes ?p \<noteq> 1"
    with call have "no_keyframe_message envIndex = no_user_transform_message (prefix @ sensorName) envIndex"
      by (simp add: setSensorTransformsFromKeyframe_cases [OF assms(2,3)])
    with messages_differ show False by blast
  qed
  from call one have res: "fst ?loop = Some (Check_failed (no_user_transform_message (prefix @ sensorName) envIndex))"
    and s': "s' = s\<lparr>nodes := snd ?loop\<rparr>"
    by (simp_all add: setSensorTransformsFromKeyframe_cases [OF assms(2,3)])
  have miss: "\<exists>x \<in> set ?m. getUserTransform ?p (prefix @ fst x) = None"
  proof (rule ccontr)
    assume "\<not> (\<exists>x \<in> set ?m. getUserTransform ?p (prefix @ fst x) = None)"
    then have "\<forall>x \<in> set ?m. getUserTransform ?p (prefix @ fst x) \<noteq> None" by simp
    from sensor_loop_ok [OF this es, of envIndex] res show False by simp
  qed
  from sensor_loop_stops [OF miss es, of envIndex]
  obtain pre n0 a0 post where
    sp: "?m = pre @ (n0, a0) # post"
    and x: "getUserTransform ?p (prefix @ n0) = None"
    and r: "?loop =
      (Some (Check_failed (no_user_transform_message (prefix @ n0) envIndex)),
       snd (sensor_loop envIndex prefix ?p pre (nodes s)))"
    and ap: "\<forall>x \<in> set pre. \<exists>node t r.
        nodes s ! snd x = Some node \<and> getUserTransform ?p (prefix @ fst x) = Some (t, r) \<and>
        snd (sensor_loop envIndex prefix ?p pre (nodes s)) ! snd x =
          Some (node\<lparr>node_rotation := r, node_translation := t\<rparr>)"
    and un: "\<forall>a. a \<notin> snd ` set pre \<longrightarrow> snd (sensor_loop envIndex prefix ?p pre (nodes s)) ! a = nodes s ! a"
    by (elim exE conjE)
  from res r have "no_user_transform_message (prefix @ n0) envIndex
      = no_user_transform_message (prefix @ sensorName) envIndex"
    by simp
  then have n0: "n0 = sensorName" by (simp add: no_user_transform_message_inj)
  have nodes': "nodes s' = snd (sensor_loop envIndex prefix ?p pre (nodes s))"
    using s' r by simp
  have mem: "sensorName \<in> fst ` set ?m"
    unfolding sp n0 [symmetric] by (simp add: image_iff)
  have x': "getUserTransform ?p (prefix @ sensorName) = None" using x n0 by simp
  from srt sp have before: "\<forall>y \<in> set pre. fst y < n0" and after: "\<forall>y \<in> set post. n0 < fst y"
    using sorted_split [of pre n0 a0 post] by simp_all
  from es(1) sp have disj: "a0 \<notin> snd ` set pre" "\<forall>y \<in> set post. snd y \<notin> snd ` set pre"
    by auto
  have each: "\<forall>x \<in> set ?m.
       (fst x < sensorName \<longrightarrow>
          (\<exists>node. nodes s' ! snd x = Some node \<and>
             getUserTransform ?p (prefix @ fst x) = Some (node_translation node, node_rotation node))) \<and>
       (\<not> fst x < sensorName \<longrightarrow> nodes s' ! snd x = nodes s ! snd x)"
  proof
    fix y assume "y \<in> set ?m"
    then consider "y \<in> set pre" | "y = (n0, a0)" | "y \<in> set post" unfolding sp by auto
    then show "(fst y < sensorName \<longrightarrow>
          (\<exists>node. nodes s' ! snd y = Some node \<and>
             getUserTransform ?p (prefix @ fst y) = Some (node_translation node, node_rotation node))) \<and>
       (\<not> fst y < sensorName \<longrightarrow> nodes s' ! snd y = nodes s ! snd y)"
    proof cases
      case 1
      with before have lt: "fst y < sensorName" by (simp add: n0)
      from ap 1 obtain node t r where
        "getUserTransform ?p (prefix @ fst y) = Some (t, r)"
        "snd (sensor_loop envIndex prefix ?p pre (nodes s)) ! snd y =
          Some (node\<lparr>node_rotation := r, node_translation := t\<rparr>)"
        by blast
      then have "\<exists>node. nodes s' ! snd y = Some node \<and>
             getUserTransform ?p (prefix @ fst y) = Some (node_translation node, node_rotation node)"
        by (simp add: nodes')
      with lt show ?thesis by simp
    next
      case 2
      then have "\<not> fst y < sensorName" by (simp add: n0)
      moreover have "nodes s' ! snd y = nodes s ! snd y"
        using un disj(1) 2 by (simp add: nodes')
      ultimately show ?thesis by simp
    next
      case 3
      with after have "\<not> fst y < sensorName" by (auto simp: n0)
      moreover have "nodes s' ! snd y = nodes s ! snd y"
        using un disj(2) 3 by (simp add: nodes')
      ultimately show ?thesis by simp
    qed
  qed
  show ?thesis
    by (intro conjI) (rule srt mem x' each)+
qed

theorem sensors_before_the_missing_one_moved_witness:
  \<open>constructed example_keyframeFromString example_cfg example_replayed \<and>
   sensorMap_m (envs_m example_replayed ! nat 0) = [(''depth'', 3), (''rgb'', 2)] \<and>
   ''depth'' < ''rgb'' \<and>
   nodes (snd (setSensorTransformsFromKeyframe 0 ''head_'' example_replayed)) ! 3 =
     Some \<lparr>node_parent = Some 1, node_translation = Vector3 7 8 9,
           node_rotation = Quaternion (Vector3 1 0 0) 0\<rparr> \<and>
   nodes (snd (setSensorTransformsFromKeyframe 0 ''head_'' example_replayed)) ! 2 =
     nodes example_replayed ! 2\<close>
proof -
  have a: "(0::int) \<le> 0" by simp
  have b: "0 < int (length (envs_m example_replayed))"
    by (simp add: example_replayed_def)
  have m: "sensorMap_m (envs_m example_replayed ! nat 0) = [(''depth'', 3), (''rgb'', 2)]"
    by (simp add: example_replayed_def)
  have call: \<open>setSensorTransformsFromKeyframe 0 ''head_'' example_replayed =
      (Some (Check_failed
         (''setSensorTransformsFromKeyframe: couldn't find user transform "'' @ (''head_'' @ ''rgb'')
            @ ''" for environment '' @ string_of_int 0 @ ''.'')),
       snd (setSensorTransformsFromKeyframe 0 ''head_'' example_replayed))\<close>
    by (simp add: example_head_call string_of_int_def string_of_nat.simps)
  note t = sensors_before_the_missing_one_moved [OF example_replayed_constructed a b call]
  from t have each: "\<forall>x \<in> set (sensorMap_m (envs_m example_replayed ! nat 0)).
       (\<not> fst x < ''rgb'' \<longrightarrow>
          nodes (snd (setSensorTransformsFromKeyframe 0 ''head_'' example_replayed)) ! snd x
            = nodes example_replayed ! snd x)"
    by simp
  then have rgb: "nodes (snd (setSensorTransformsFromKeyframe 0 ''head_'' example_replayed)) ! 2 =
     nodes example_replayed ! 2"
    unfolding m by simp
  have n: "nodes (snd (setSensorTransformsFromKeyframe 0 ''head_'' example_replayed)) ! 3 =
     Some \<lparr>node_parent = Some 1, node_translation = Vector3 7 8 9,
           node_rotation = Quaternion (Vector3 1 0 0) 0\<rparr>"
    unfolding example_head_call by (simp add: example_replayed_def example_renderer_def)
  from example_replayed_constructed m rgb n show ?thesis by simp
qed

section \<open>Scene graphs of an environment\<close>

text \<open>
  C4. With a valid index, \<open>getSemanticSceneGraph\<close> returns what \<open>getSceneGraph\<close> returns
  whenever the record's semantic id is \<open>ID_UNDEFINED\<close> or equal to its scene id. On a
  renderer constructed from \<open>cfg\<close>, both return a scene graph, and the two are the same
  graph exactly when \<open>forceSeparateSemanticSceneGraph cfg\<close> is false.
\<close>

theorem semantic_scene_graph_identity:
  assumes "0 \<le> envIndex" "envIndex < int (length (envs_m s))"
  shows "(semanticSceneID_m (envs_m s ! nat envIndex) = ID_UNDEFINED \<or>
          semanticSceneID_m (envs_m s ! nat envIndex) = sceneID_m (envs_m s ! nat envIndex)
            \<longrightarrow> getSemanticSceneGraph envIndex s = getSceneGraph envIndex s) \<and>
         (constructed keyframeFromString cfg s \<longrightarrow>
            (\<exists>g sg. getSceneGraph envIndex s = Inr g \<and> getSemanticSceneGraph envIndex s = Inr sg \<and>
               (sg = g) = (\<not> forceSeparateSemanticSceneGraph cfg)))"
proof (intro conjI impI)
  assume "semanticSceneID_m (envs_m s ! nat envIndex) = ID_UNDEFINED \<or>
          semanticSceneID_m (envs_m s ! nat envIndex) = sceneID_m (envs_m s ! nat envIndex)"
  then show "getSemanticSceneGraph envIndex s = getSceneGraph envIndex s"
    using assms by (auto simp: getSemanticSceneGraph_def getSceneGraph_def Let_def)
next
  assume c: "constructed keyframeFromString cfg s"
  let ?env = "envs_m s ! nat envIndex"
  from constructed_inv [OF c] have inv: "renderer_inv s" and cfg: "config_m s = cfg" by simp_all
  have k: "nat envIndex < length (envs_m s)" using assms by simp
  note g = env_graphs [OF inv k]
  have u: "semanticSceneID_m ?env \<noteq> ID_UNDEFINED" using g(3) by (simp add: ID_UNDEFINED_def)
  have 1: "getSceneGraph envIndex s = Inr (nat (sceneID_m ?env))"
    using assms g(1,2) by (simp add: getSceneGraph_def SceneManager_getSceneGraph_def)
  have 2: "getSemanticSceneGraph envIndex s = Inr (nat (semanticSceneID_m ?env))"
    using assms g(3,4) u by (simp add: getSemanticSceneGraph_def SceneManager_getSceneGraph_def)
  have 3: "(nat (semanticSceneID_m ?env) = nat (sceneID_m ?env)) = (\<not> forceSeparateSemanticSceneGraph cfg)"
    using g(1,3,5) cfg by auto
  show "\<exists>g sg. getSceneGraph envIndex s = Inr g \<and> getSemanticSceneGraph envIndex s = Inr sg \<and>
               (sg = g) = (\<not> forceSeparateSemanticSceneGraph cfg)"
    by (intro exI conjI) (rule 1 2 3)+
qed

theorem semantic_scene_graph_identity_witness:
  "constructed example_keyframeFromString example_cfg example_renderer \<and>
   forceSeparateSemanticSceneGraph example_cfg = False \<and>
   getSceneGraph 1 example_renderer = Inr 1 \<and>
   getSemanticSceneGraph 1 example_renderer = Inr 1 \<and>
   constructed example_keyframeFromString example_cfg_separate example_separate \<and>
   forceSeparateSemanticSceneGraph example_cfg_separate = True \<and>
   getSceneGraph 0 example_separate = Inr 0 \<and>
   getSemanticSceneGraph 0 example_separate = Inr 1"
proof -
  have a: "(0::int) \<le> 1" "1 < int (length (envs_m example_renderer))"
    by (simp_all add: example_renderer_def)
  have b: "(0::int) \<le> 0" "0 < int (length (envs_m example_separate))"
    by (simp_all add: example_separate_def)
  have g1: "getSceneGraph 1 example_renderer = Inr 1"
    by (simp add: getSceneGraph_def SceneManager_getSceneGraph_def example_renderer_def)
  have g2: "getSceneGraph 0 example_separate = Inr 0"
    by (simp add: getSceneGraph_def SceneManager_getSceneGraph_def example_separate_def)
  have f: "forceSeparateSemanticSceneGraph example_cfg = False"
    "forceSeparateSemanticSceneGraph example_cfg_separate = True"
    by (simp_all add: example_cfg_def example_cfg_separate_def)
  from semantic_scene_graph_identity [OF a, of example_keyframeFromString example_cfg]
    example_constructed [of example_keyframeFromString]
  have s1: "getSemanticSceneGraph 1 example_renderer = Inr 1"
    by (auto simp: g1 f)
  from semantic_scene_graph_identity [OF b, of example_keyframeFromString example_cfg_separate]
    example_separate_constructed [of example_keyframeFromString]
  obtain sg where s2: "getSemanticSceneGraph 0 example_separate = Inr sg" "sg \<noteq> 0"
    by (auto simp: g2 f)
  have "getSemanticSceneGraph 0 example_separate = Inr 1"
    by (simp add: getSemanticSceneGraph_def SceneManager_getSceneGraph_def example_separate_def
        ID_UNDEFINED_def)
  with s2 g1 g2 s1 f example_constructed example_separate_constructed show ?thesis by simp
qed

section \<open>Keyframes of an environment\<close>

text \<open>
  C5. On a constructed renderer, with a valid index and a blob that parses,
  \<open>setEnvironmentKeyframe\<close> returns normally, and afterwards the Player of that environment
  holds exactly the one parsed keyframe, whatever it held before.
\<close>

theorem setEnvironmentKeyframe_replaces:
  assumes "constructed keyframeFromString cfg s"
    and "0 \<le> envIndex" "envIndex < int (length (envs_m s))"
    and "keyframeFromString serKeyframe = Some keyframe"
  shows "\<exists>s'. setEnvironmentKeyframe keyframeFromString envIndex serKeyframe s = (None, s') \<and>
     keyframes_m (player_m (envs_m s' ! nat envIndex)) = [keyframe] \<and>
     getNumKeyframes (player_m (envs_m s' ! nat envIndex)) = 1"
proof -
  from constructed_inv [OF assms(1)] have inv: "renderer_inv s" by simp
  have k: "nat envIndex < length (envs_m s)" using assms(2,3) by simp
  from inv k have cb: "assetCallback_envIdx (player_m (envs_m s ! nat envIndex)) = int (nat envIndex)"
    and rm: "resourceManager_m s \<noteq> None"
    by (simp_all add: renderer_inv_def callbacks_ok_def)
  have call: "setEnvironmentKeyframe keyframeFromString envIndex serKeyframe s
      = setSingleKeyframe (nat envIndex) keyframe s"
    using assms(2,3,4) by (simp add: setEnvironmentKeyframe_def)
  obtain r s' where rs: "setSingleKeyframe (nat envIndex) keyframe s = (r, s')"
    by (cases "setSingleKeyframe (nat envIndex) keyframe s")
  from setSingleKeyframe_ok [OF k cb rm, of keyframe] rs have r: "r = None" by simp
  from setSingleKeyframe_frame [OF rs] k
  have kf: "keyframes_m (player_m (envs_m s' ! nat envIndex)) = [keyframe]" by simp
  have 1: "setEnvironmentKeyframe keyframeFromString envIndex serKeyframe s = (None, s')"
    using call rs r by simp
  have 2: "getNumKeyframes (player_m (envs_m s' ! nat envIndex)) = 1"
    using kf by (simp add: getNumKeyframes_def)
  show ?thesis by (intro exI conjI) (rule 1 kf 2)+
qed

theorem setEnvironmentKeyframe_replaces_witness:
  "constructed example_keyframeFromString example_cfg example_replayed \<and>
   keyframes_m (player_m (envs_m example_replayed ! nat 0)) = [example_keyframe] \<and>
   example_keyframeFromString ''empty''
     = Some \<lparr>creations = [], lights = None, userTransforms = Map.empty\<rparr> \<and>
   fst (setEnvironmentKeyframe example_keyframeFromString 0 ''empty'' example_replayed) = None \<and>
   keyframes_m (player_m (envs_m
       (snd (setEnvironmentKeyframe example_keyframeFromString 0 ''empty'' example_replayed)) ! nat 0))
     = [\<lparr>creations = [], lights = None, userTransforms = Map.empty\<rparr>]"
proof -
  have a: "(0::int) \<le> 0" "0 < int (length (envs_m example_replayed))"
    by (simp_all add: example_replayed_def)
  have c: "keyframes_m (player_m (envs_m example_replayed ! nat 0)) = [example_keyframe]"
    by (simp add: example_replayed_def)
  have p: "example_keyframeFromString ''empty''
     = Some \<lparr>creations = [], lights = None, userTransforms = Map.empty\<rparr>"
    by (simp add: example_keyframeFromString_def)
  from setEnvironmentKeyframe_replaces [OF example_replayed_constructed a p]
  obtain s' where "setEnvironmentKeyframe example_keyframeFromString 0 ''empty'' example_replayed = (None, s')"
    "keyframes_m (player_m (envs_m s' ! nat 0)) = [\<lparr>creations = [], lights = None, userTransforms = Map.empty\<rparr>]"
    by (elim exE conjE)
  with example_replayed_constructed c p show ?thesis by simp
qed

section \<open>Environments are independent\<close>

text \<open>
  C9. On a constructed renderer, for valid indices \<open>i\<close> and \<open>j\<close> with \<open>j \<noteq> i\<close>, neither
  \<open>setEnvironmentKeyframe\<close> nor \<open>setSensorTransformsFromKeyframe\<close> on environment \<open>i\<close>
  changes the record of environment \<open>j\<close> (its Player, scene graph ids, sensor-parent node
  and sensor map), the nodes of the sensors of environment \<open>j\<close>, or the scene graph store.
\<close>

theorem other_environments_untouched:
  assumes "constructed keyframeFromString cfg s"
    and "0 \<le> i" "i < int (length (envs_m s))"
    and "0 \<le> j" "j < int (length (envs_m s))"
    and "j \<noteq> i"
  shows "envs_m (snd (setEnvironmentKeyframe keyframeFromString i serKeyframe s)) ! nat j = envs_m s ! nat j \<and>
    nodes (snd (setEnvironmentKeyframe keyframeFromString i serKeyframe s)) = nodes s \<and>
    sceneManager_m (snd (setEnvironmentKeyframe keyframeFromString i serKeyframe s)) = sceneManager_m s \<and>
    envs_m (snd (setSensorTransformsFromKeyframe i prefix s)) ! nat j = envs_m s ! nat j \<and>
    (\<forall>x \<in> set (sensorMap_m (envs_m s ! nat j)).
       nodes (snd (setSensorTransformsFromKeyframe i prefix s)) ! snd x = nodes s ! snd x) \<and>
    sceneManager_m (snd (setSensorTransformsFromKeyframe i prefix s)) = sceneManager_m s"
proof -
  have ne: "nat i \<noteq> nat j" using assms(2,4,6) by simp
  have ki: "nat i < length (envs_m s)" and kj: "nat j < length (envs_m s)"
    using assms(2-5) by simp_all
  obtain r1 s1 where k1: "setEnvironmentKeyframe keyframeFromString i serKeyframe s = (r1, s1)"
    by (cases "setEnvironmentKeyframe keyframeFromString i serKeyframe s")
  have a: "envs_m s1 ! nat j = envs_m s ! nat j \<and> nodes s1 = nodes s \<and> sceneManager_m s1 = sceneManager_m s"
  proof (cases "keyframeFromString serKeyframe")
    case None
    with k1 assms(2,3) show ?thesis by (simp add: setEnvironmentKeyframe_def)
  next
    case (Some keyframe)
    with k1 assms(2,3) have "setSingleKeyframe (nat i) keyframe s = (r1, s1)"
      by (simp add: setEnvironmentKeyframe_def)
    from setSingleKeyframe_frame [OF this] ne show ?thesis by simp
  qed
  obtain r2 s2 where k2: "setSensorTransformsFromKeyframe i prefix s = (r2, s2)"
    by (cases "setSensorTransformsFromKeyframe i prefix s")
  note f2 = setSensorTransformsFromKeyframe_frame [OF k2]
  from constructed_inv [OF assms(1)] have so: "sensors_ok (envs_m s) (nodes s)"
    by (simp add: renderer_inv_def)
  let ?xss = "map (\<lambda>env. map snd (sensorMap_m env)) (envs_m s)"
  from so have "distinct (concat ?xss)" by (simp add: sensors_ok_def all_sensors_def)
  from distinct_concat_disjoint [OF this, of "nat i" "nat j"] ki kj ne
  have disj: "snd ` set (sensorMap_m (envs_m s ! nat i)) \<inter> snd ` set (sensorMap_m (envs_m s ! nat j)) = {}"
    by simp
  have b: "\<forall>x \<in> set (sensorMap_m (envs_m s ! nat j)). nodes s2 ! snd x = nodes s ! snd x"
  proof
    fix x assume x: "x \<in> set (sensorMap_m (envs_m s ! nat j))"
    with disj have fresh: "snd x \<notin> snd ` set (sensorMap_m (envs_m s ! nat i))" by blast
    have "s2 = s \<or> s2 = s\<lparr>nodes := snd (sensor_loop i prefix (player_m (envs_m s ! nat i))
        (sensorMap_m (envs_m s ! nat i)) (nodes s))\<rparr>"
      using k2 by (auto simp: setSensorTransformsFromKeyframe_def Let_def split: if_splits prod.splits)
    then show "nodes s2 ! snd x = nodes s ! snd x"
      using fresh by (auto simp: sensor_loop_other)
  qed
  from a b f2 show ?thesis by (simp add: k1 k2)
qed

theorem other_environments_untouched_witness:
  "constructed example_keyframeFromString example_cfg example_replayed \<and>
   envs_m (snd (setEnvironmentKeyframe example_keyframeFromString 0 ''empty'' example_replayed)) ! nat 1
     = envs_m example_replayed ! nat 1 \<and>
   nodes (snd (setEnvironmentKeyframe example_keyframeFromString 0 ''empty'' example_replayed))
     = nodes example_replayed \<and>
   envs_m (snd (setSensorTransformsFromKeyframe 0 ''agent_'' example_replayed)) ! nat 1
     = envs_m example_replayed ! nat 1 \<and>
   sensorMap_m (envs_m example_replayed ! nat 1) = [(''depth'', 7), (''rgb'', 6)] \<and>
   nodes (snd (setSensorTransformsFromKeyframe 0 ''agent_'' example_replayed)) ! 7
     = nodes example_replayed ! 7 \<and>
   nodes (snd (setSensorTransformsFromKeyframe 0 ''agent_'' example_replayed)) ! 6
     = nodes example_replayed ! 6"
proof -
  have a: "(0::int) \<le> 0" "0 < int (length (envs_m example_replayed))"
    and b: "(0::int) \<le> 1" "1 < int (length (envs_m example_replayed))"
    and ne: "(1::int) \<noteq> 0"
    by (simp_all add: example_replayed_def)
  have m: "sensorMap_m (envs_m example_replayed ! nat 1) = [(''depth'', 7), (''rgb'', 6)]"
    by (simp add: example_replayed_def)
  note t = other_environments_untouched [OF example_replayed_constructed a b ne,
      of "''empty''" "''agent_''"]
  from t have "\<forall>x \<in> set (sensorMap_m (envs_m example_replayed ! nat 1)).
       nodes (snd (setSensorTransformsFromKeyframe 0 ''agent_'' example_replayed)) ! snd x
         = nodes example_replayed ! snd x"
    by (elim conjE)
  then have n: "nodes (snd (setSensorTransformsFromKeyframe 0 ''agent_'' example_replayed)) ! 7
     = nodes example_replayed ! 7"
     "nodes (snd (setSensorTransformsFromKeyframe 0 ''agent_'' example_replayed)) ! 6
     = nodes example_replayed ! 6"
    unfolding m by simp_all
  from t n m example_replayed_constructed show ?thesis by simp
qed

section \<open>Construction and destruction\<close>

text \<open>
  C7. The constructor has no check on \<open>numEnvironments\<close>. With zero environments
  requested it completes, and the renderer it returns has no environment record.
\<close>

theorem ctor_accepts_zero_environments_counterexample:
  "ReplayBatchRenderer_ctor False True
     \<lparr>numEnvironments = 0, gpuDeviceId = 0, forceSeparateSemanticSceneGraph = False,
      leaveContextWithBackgroundRenderer = False, sensorSpecifications = [\<lparr>uuid = ''rgb''\<rparr>]\<rparr>
   = Inr (\<lparr>config_m =
             \<lparr>numEnvironments = 0, gpuDeviceId = 0, forceSeparateSemanticSceneGraph = False,
              leaveContextWithBackgroundRenderer = False, sensorSpecifications = [\<lparr>uuid = ''rgb''\<rparr>]\<rparr>,
           resourceManager_m = Some \<lparr>lightSetup_m = None, renderAssetInstances_m = []\<rparr>,
           sceneManager_m = \<lparr>sceneGraphs_m = []\<rparr>,
           envs_m = [],
           context_m = Some 0,
           renderer_m =
             Some \<lparr>rendererContext = Some 0, rendererFlags = [BackgroundRenderer],
                   glContextAcquired = True\<rparr>,
           nodes = []\<rparr> :: real ReplayBatchRenderer)"
  by (simp add: ReplayBatchRenderer_ctor_def ctor_loop.simps)

text \<open>
  C7, as the code has it: whenever \<open>numEnvironments\<close> is zero or negative the constructor's
  loop runs no iteration, the constructor completes, and the renderer it returns holds
  the configuration and no environment record.
\<close>

theorem ctor_without_environments:
  fixes cfg :: ReplayBatchRendererConfiguration
  assumes "numEnvironments cfg \<le> 0"
  shows "\<exists>s :: ('f::{zero,one}) ReplayBatchRenderer.
    ReplayBatchRenderer_ctor hasCurrent backgroundRendererBuild cfg = Inr s \<and>
    envs_m s = [] \<and> config_m s = cfg"
proof -
  define s0 :: "'f ReplayBatchRenderer" where
    "s0 = \<lparr>config_m = cfg,
            resourceManager_m = Some \<lparr>lightSetup_m = None, renderAssetInstances_m = []\<rparr>,
            sceneManager_m = \<lparr>sceneGraphs_m = []\<rparr>,
            envs_m = [], context_m = None, renderer_m = None, nodes = []\<rparr>"
  have loop: "ctor_loop 0 cfg s0 = s0"
    using assms by (subst ctor_loop.simps) (simp add: s0_def)
  obtain s :: "'f ReplayBatchRenderer" where
    s: "ReplayBatchRenderer_ctor hasCurrent backgroundRendererBuild cfg = Inr s"
    by (simp add: ReplayBatchRenderer_ctor_def Let_def)
  then have "envs_m s = envs_m (ctor_loop 0 cfg s0) \<and> config_m s = config_m (ctor_loop 0 cfg s0)"
    unfolding ReplayBatchRenderer_ctor_def Let_def s0_def
    by (cases hasCurrent) auto
  then have "envs_m s = envs_m s0 \<and> config_m s = config_m s0" by (simp only: loop)
  then have "envs_m s = [] \<and> config_m s = cfg" by (simp add: s0_def)
  with s show ?thesis by blast
qed

theorem ctor_without_environments_witness:
  "numEnvironments
     \<lparr>numEnvironments = - 1, gpuDeviceId = 0, forceSeparateSemanticSceneGraph = True,
      leaveContextWithBackgroundRenderer = False, sensorSpecifications = []\<rparr> \<le> 0 \<and>
   envs_m (projr (ReplayBatchRenderer_ctor True False
     \<lparr>numEnvironments = - 1, gpuDeviceId = 0, forceSeparateSemanticSceneGraph = True,
      leaveContextWithBackgroundRenderer = False, sensorSpecifications = []\<rparr>)
       :: real ReplayBatchRenderer) = [] \<and>
   isl (ReplayBatchRenderer_ctor True False
     \<lparr>numEnvironments = - 1, gpuDeviceId = 0, forceSeparateSemanticSceneGraph = True,
      leaveContextWithBackgroundRenderer = False, sensorSpecifications = []\<rparr>
       :: failure + real ReplayBatchRenderer) = False"
proof -
  let ?cfg = "\<lparr>numEnvironments = - 1, gpuDeviceId = 0, forceSeparateSemanticSceneGraph = True,
      leaveContextWithBackgroundRenderer = False, sensorSpecifications = []\<rparr>"
  have a: "numEnvironments ?cfg \<le> 0" by simp
  from ctor_without_environments [OF a, of True False]
  obtain s :: "real ReplayBatchRenderer" where
    "ReplayBatchRenderer_ctor True False ?cfg = Inr s" "envs_m s = []"
    by (elim exE conjE)
  then show ?thesis by simp
qed

text \<open>
  C8. The destructor of a constructed renderer runs to its end, and its calls are, in
  order: for each environment in ascending index order, the close of its Player followed
  by the release of every sensor of its sensor map in the map's order; and last, after
  the calls of all environments, the reset of the resource manager. In the state it
  leaves, the resource manager is gone, every environment record is the one it was with
  its Player closed, the node of every sensor of every environment is deleted, and every
  other node is as it was.
\<close>

theorem destructor_order:
  assumes "constructed keyframeFromString cfg s"
  shows "\<exists>s'. ReplayBatchRenderer_dtor s =
     (None,
      concat (map (\<lambda>k. Player_closed (int k) #
                       map (\<lambda>x. Sensor_deleted (snd x)) (sensorMap_m (envs_m s ! k)))
               [0..<length (envs_m s)])
        @ [ResourceManager_reset],
      s') \<and> resourceManager_m s' = None \<and>
     envs_m s' = map (\<lambda>env. env\<lparr>player_m := Player_close (player_m env)\<rparr>) (envs_m s) \<and>
     (\<forall>env \<in> set (envs_m s'). keyframes_m (player_m env) = []) \<and>
     length (nodes s') = length (nodes s) \<and>
     (\<forall>env \<in> set (envs_m s'). \<forall>x \<in> set (sensorMap_m env). nodes s' ! snd x = None) \<and>
     (\<forall>a. a \<notin> set (all_sensors (envs_m s)) \<longrightarrow> nodes s' ! a = nodes s ! a)"
proof -
  from constructed_inv [OF assms] have len: "length (envs_m s) = nat (numEnvironments (config_m s))"
    and so: "sensors_ok (envs_m s) (nodes s)"
    by (simp_all add: renderer_inv_def)
  from so have d: "distinct (all_sensors (drop (nat 0) (envs_m s)))"
    by (simp add: sensors_ok_def)
  have v: "\<forall>a \<in> set (all_sensors (drop (nat 0) (envs_m s))). a < length (nodes s) \<and> nodes s ! a \<noteq> None"
  proof
    fix a assume "a \<in> set (all_sensors (drop (nat 0) (envs_m s)))"
    with so have lt: "a < length (nodes s)" and n: "None \<notin> set (nodes s)"
      by (simp_all add: sensors_ok_def)
    from lt have "nodes s ! a \<in> set (nodes s)" by simp
    with n have "nodes s ! a \<noteq> None" by metis
    with lt show "a < length (nodes s) \<and> nodes s ! a \<noteq> None" by simp
  qed
  have n0: "length (envs_m s) = length (envs_m s) - nat 0" and z: "(0::int) \<le> 0" by simp_all
  from dtor_loop_effect [OF n0 z len d v, of "[]"]
  obtain s1 where s1: "dtor_loop 0 [] s =
     (None,
      [] @ concat (map (\<lambda>k. Player_closed (int k) #
                       map (\<lambda>x. Sensor_deleted (snd x)) (sensorMap_m (envs_m s ! k)))
               [nat 0..<length (envs_m s)]),
      s1)"
    and e1: "envs_m s1 = take (nat 0) (envs_m s) @
        map (\<lambda>env. env\<lparr>player_m := Player_close (player_m env)\<rparr>) (drop (nat 0) (envs_m s))"
    and l1: "length (nodes s1) = length (nodes s)"
    and d1: "\<forall>a \<in> set (all_sensors (drop (nat 0) (envs_m s))). nodes s1 ! a = None"
    and u1: "\<forall>a. a \<notin> set (all_sensors (drop (nat 0) (envs_m s))) \<longrightarrow> nodes s1 ! a = nodes s ! a"
    by (elim exE conjE)
  let ?s' = "s1\<lparr>resourceManager_m := None\<rparr>"
  have 1: "ReplayBatchRenderer_dtor s =
     (None,
      concat (map (\<lambda>k. Player_closed (int k) #
                       map (\<lambda>x. Sensor_deleted (snd x)) (sensorMap_m (envs_m s ! k)))
               [0..<length (envs_m s)])
        @ [ResourceManager_reset],
      ?s')"
    using s1 by (simp add: ReplayBatchRenderer_dtor_def)
  have 2: "resourceManager_m ?s' = None" by simp
  have 3: "envs_m ?s' = map (\<lambda>env. env\<lparr>player_m := Player_close (player_m env)\<rparr>) (envs_m s)"
    using e1 by simp
  have 4: "\<forall>env \<in> set (envs_m ?s'). keyframes_m (player_m env) = []"
    unfolding 3 by (auto simp: Player_close_def)
  have 5: "length (nodes ?s') = length (nodes s)" using l1 by simp
  have 6: "\<forall>env \<in> set (envs_m ?s'). \<forall>x \<in> set (sensorMap_m env). nodes ?s' ! snd x = None"
  proof (intro ballI)
    fix env x assume env: "env \<in> set (envs_m ?s')" and x: "x \<in> set (sensorMap_m env)"
    from env obtain e where e: "e \<in> set (envs_m s)" "sensorMap_m env = sensorMap_m e"
      unfolding 3 by auto
    with x have "snd x \<in> set (all_sensors (envs_m s))"
      by (auto simp: all_sensors_def)
    with d1 show "nodes ?s' ! snd x = None" by simp
  qed
  have 7: "\<forall>a. a \<notin> set (all_sensors (envs_m s)) \<longrightarrow> nodes ?s' ! a = nodes s ! a"
    using u1 by simp
  show ?thesis by (intro exI conjI) (rule 1 2 3 4 5 6 7)+
qed

theorem destructor_order_witness:
  "constructed example_keyframeFromString example_cfg example_replayed \<and>
   fst (ReplayBatchRenderer_dtor example_replayed) = None \<and>
   fst (snd (ReplayBatchRenderer_dtor example_replayed)) =
     [Player_closed 0, Sensor_deleted 3, Sensor_deleted 2,
      Player_closed 1, Sensor_deleted 7, Sensor_deleted 6,
      ResourceManager_reset] \<and>
   resourceManager_m (snd (snd (ReplayBatchRenderer_dtor example_replayed))) = None \<and>
   keyframes_m (player_m (envs_m example_replayed ! 0)) = [example_keyframe] \<and>
   keyframes_m (player_m (envs_m (snd (snd (ReplayBatchRenderer_dtor example_replayed))) ! 0)) = [] \<and>
   keyframes_m (player_m (envs_m (snd (snd (ReplayBatchRenderer_dtor example_replayed))) ! 1)) = [] \<and>
   nodes example_replayed ! 3 \<noteq> None \<and>
   nodes (snd (snd (ReplayBatchRenderer_dtor example_replayed))) ! 3 = None \<and>
   nodes (snd (snd (ReplayBatchRenderer_dtor example_replayed))) ! 2 = None \<and>
   nodes (snd (snd (ReplayBatchRenderer_dtor example_replayed))) ! 7 = None \<and>
   nodes (snd (snd (ReplayBatchRenderer_dtor example_replayed))) ! 6 = None \<and>
   nodes (snd (snd (ReplayBatchRenderer_dtor example_replayed))) ! 1 = nodes example_replayed ! 1"
proof -
  from destructor_order [OF example_replayed_constructed]
  obtain s' where call: "ReplayBatchRenderer_dtor example_replayed =
     (None,
      concat (map (\<lambda>k. Player_closed (int k) #
                       map (\<lambda>x. Sensor_deleted (snd x)) (sensorMap_m (envs_m example_replayed ! k)))
               [0..<length (envs_m example_replayed)])
        @ [ResourceManager_reset],
      s')"
    and rm: "resourceManager_m s' = None"
    and envs: "envs_m s' = map (\<lambda>env. env\<lparr>player_m := Player_close (player_m env)\<rparr>)
        (envs_m example_replayed)"
    and del: "\<forall>env \<in> set (envs_m s'). \<forall>x \<in> set (sensorMap_m env). nodes s' ! snd x = None"
    and un: "\<forall>a. a \<notin> set (all_sensors (envs_m example_replayed)) \<longrightarrow>
        nodes s' ! a = nodes example_replayed ! a"
    by (elim exE conjE)
  have len: "length (envs_m example_replayed) = 2" by (simp add: example_replayed_def)
  have upt: "[0..<2] = [0, Suc 0]" by (simp add: upt_rec)
  have maps: "sensorMap_m (envs_m example_replayed ! 0) = [(''depth'', 3), (''rgb'', 2)]"
    "sensorMap_m (envs_m example_replayed ! Suc 0) = [(''depth'', 7), (''rgb'', 6)]"
    by (simp_all add: example_replayed_def)
  have tr: "fst (snd (ReplayBatchRenderer_dtor example_replayed)) =
     [Player_closed 0, Sensor_deleted 3, Sensor_deleted 2,
      Player_closed 1, Sensor_deleted 7, Sensor_deleted 6,
      ResourceManager_reset]"
    unfolding call len upt by (simp add: maps)
  have before: "keyframes_m (player_m (envs_m example_replayed ! 0)) = [example_keyframe]"
    "nodes example_replayed ! 3 \<noteq> None"
    by (simp_all add: example_replayed_def example_renderer_def)
  have envs': "envs_m s' =
      [\<lparr>player_m = \<lparr>keyframes_m = [], assetCallback_envIdx = 0\<rparr>,
        sceneID_m = 0, semanticSceneID_m = 0, sensorParentNode_m = 1,
        sensorMap_m = [(''depth'', 3), (''rgb'', 2)]\<rparr>,
       \<lparr>player_m = \<lparr>keyframes_m = [], assetCallback_envIdx = 1\<rparr>,
        sceneID_m = 1, semanticSceneID_m = 1, sensorParentNode_m = 5,
        sensorMap_m = [(''depth'', 7), (''rgb'', 6)]\<rparr>]"
    unfolding envs by (simp add: example_replayed_def Player_close_def)
  have closed: "keyframes_m (player_m (envs_m s' ! 0)) = []"
    "keyframes_m (player_m (envs_m s' ! 1)) = []"
    unfolding envs' by simp_all
  from del have gone: "nodes s' ! 3 = None" "nodes s' ! 2 = None" "nodes s' ! 7 = None" "nodes s' ! 6 = None"
    unfolding envs' by simp_all
  have "1 \<notin> set (all_sensors (envs_m example_replayed))"
    by (simp add: all_sensors_def example_replayed_def)
  with un have kept: "nodes s' ! 1 = nodes example_replayed ! 1" by simp
  show ?thesis
    using example_replayed_constructed tr rm before closed gone kept by (simp add: call)
qed

end
